theory Spec2Isabelle
  imports Main "HOL-Library.Monad_Syntax" "HOL-Library.Sublist" "HOL-Library.Multiset"
begin

section \<open>Strings, character classes and string builtins\<close>

text \<open>
  A JavaScript string is a sequence of UTF-16 code units. A name or a description is
  modelled as a HOL \<open>string\<close>: each \<open>char\<close> is one code unit below 256 (the Latin-1
  range), and the builtins below are the JavaScript ones restricted to that range.
  Numbers: a weight is a natural number and an update time an integer. JavaScript numbers
  are doubles, which hold the integers exactly below \<open>2 ^ 53\<close>; a statement that depends
  on the value of a weight has that bound among its hypotheses.
\<close>

text \<open>The class \<open>\s\<close> of a regular expression, which is also what \<open>trim\<close> strips: TAB, LF,
  VT, FF, CR, SPACE and NBSP.\<close>

definition is_space :: "char \<Rightarrow> bool" where
  "is_space c = (c = CHR 0x09 \<or> c = CHR 0x0A \<or> c = CHR 0x0B \<or> c = CHR 0x0C \<or> c = CHR 0x0D
     \<or> c = CHR 0x20 \<or> c = CHR 0xA0)"

text \<open>The class \<open>.\<close> (no \<open>s\<close> flag): every code unit but the line terminators LF and CR.\<close>

definition is_dot :: "char \<Rightarrow> bool" where
  "is_dot c = (c \<noteq> CHR 0x0A \<and> c \<noteq> CHR 0x0D)"

text \<open>The class \<open>\d\<close>.\<close>

definition is_digit :: "char \<Rightarrow> bool" where
  "is_digit c = (48 \<le> (of_char c :: nat) \<and> (of_char c :: nat) \<le> 57)"

text \<open>The class \<open>[^)]\<close>.\<close>

definition not_rparen :: "char \<Rightarrow> bool" where
  "not_rparen c = (c \<noteq> CHR '')'')"

text \<open>ASCII letters; \<open>ascii_upper\<close> maps \<open>a-z\<close> to \<open>A-Z\<close>. Under the flag \<open>i\<close> (without
  \<open>u\<close>) a pattern character that is an ASCII character matches exactly the code units with
  the same \<open>ascii_upper\<close>: no code unit outside ASCII is canonicalized into ASCII.\<close>

definition ascii_upper :: "char \<Rightarrow> char" where
  "ascii_upper c = (let n = (of_char c :: nat) in if 97 \<le> n \<and> n \<le> 122 then char_of (n - 32) else c)"

definition ci_eq :: "char \<Rightarrow> char \<Rightarrow> bool" where
  "ci_eq p c = (ascii_upper c = ascii_upper p)"

text \<open>The class \<open>[a-z0-9\-]\<close> under the flag \<open>i\<close>.\<close>

definition is_icon_char :: "char \<Rightarrow> bool" where
  "is_icon_char c = (let n = (of_char c :: nat) in
     (97 \<le> n \<and> n \<le> 122) \<or> (65 \<le> n \<and> n \<le> 90) \<or> (48 \<le> n \<and> n \<le> 57) \<or> c = CHR ''-'')"

text \<open>\<open>String.prototype.toLowerCase\<close> on Latin-1: \<open>A-Z\<close> and the accented capitals
  \<open>0xC0-0xDE\<close> (but the multiplication sign \<open>0xD7\<close>) move up by 32.\<close>

definition toLowerCase_char :: "char \<Rightarrow> char" where
  "toLowerCase_char c = (let n = (of_char c :: nat) in
     if (65 \<le> n \<and> n \<le> 90) \<or> (192 \<le> n \<and> n \<le> 214) \<or> (216 \<le> n \<and> n \<le> 222)
     then char_of (n + 32) else c)"

definition toLowerCase :: "string \<Rightarrow> string" where
  "toLowerCase s = map toLowerCase_char s"

text \<open>\<open>String.prototype.trim\<close>.\<close>

definition trim :: "string \<Rightarrow> string" where
  "trim s = rev (dropWhile is_space (rev (dropWhile is_space s)))"

text \<open>\<open>String.prototype.startsWith\<close>.\<close>

fun startsWith :: "string \<Rightarrow> string \<Rightarrow> bool" where
  "startsWith s [] = True"
| "startsWith [] (p # ps) = False"
| "startsWith (c # cs) (p # ps) = (c = p \<and> startsWith cs ps)"

text \<open>\<open>parseInt(ds, 10)\<close> on a string of decimal digits: the number the digits denote.
  That is the result of the builtin when the number is below \<open>2 ^ 53\<close>; a greater one is
  rounded by the builtin to a double, and \<open>parseInt10\<close> is used under that bound only.\<close>

definition digit_val :: "char \<Rightarrow> nat" where
  "digit_val c = (of_char c :: nat) - 48"

definition parseInt10 :: "string \<Rightarrow> nat" where
  "parseInt10 ds = foldl (\<lambda>n c. 10 * n + digit_val c) 0 ds"

text \<open>\<open>a.localeCompare(b, undefined, {sensitivity: "base"})\<close>: negative, zero or positive.
  The collator of the platform is modelled on strings of unaccented letters \<open>a-z\<close>,
  \<open>A-Z\<close>, digits and spaces, in a locale that collates them as the root locale does
  (English, for one): there it ignores case and orders the space before the digits and the
  digits before the letters, which is the comparison, code unit by code unit, of the two
  strings with their case folded. On other strings (accents, punctuation) the collator has
  an order of its own, which \<open>localeCompare_base\<close> does not give; the statements on the
  order of names are for the strings above.\<close>

fun lex_compare :: "nat list \<Rightarrow> nat list \<Rightarrow> int" where
  "lex_compare [] [] = 0"
| "lex_compare [] (y # ys) = - 1"
| "lex_compare (x # xs) [] = 1"
| "lex_compare (x # xs) (y # ys) = (if x < y then - 1 else if y < x then 1 else lex_compare xs ys)"

definition localeCompare_base :: "string \<Rightarrow> string \<Rightarrow> int" where
  "localeCompare_base a b = lex_compare (map of_char (toLowerCase a)) (map of_char (toLowerCase b))"

section \<open>Backtracking regular-expression matching\<close>

text \<open>
  A piece of a regular expression maps the rest of the input to the list of its ways to
  match a prefix of it, in the order in which the backtracking matcher of the language
  tries them; a sequence of pieces is a \<open>do\<close> block in the list monad, and the match the
  matcher returns is the first element of the list.
\<close>

definition first :: "'a list \<Rightarrow> 'a option" where
  "first xs = (case xs of [] \<Rightarrow> None | x # _ \<Rightarrow> Some x)"

text \<open>A literal string.\<close>

fun rx_lit :: "string \<Rightarrow> string \<Rightarrow> string list" where
  "rx_lit [] s = [s]"
| "rx_lit (p # ps) [] = []"
| "rx_lit (p # ps) (c # cs) = (if c = p then rx_lit ps cs else [])"

text \<open>A literal string under the flag \<open>i\<close>.\<close>

fun rx_lit_ci :: "string \<Rightarrow> string \<Rightarrow> string list" where
  "rx_lit_ci [] s = [s]"
| "rx_lit_ci (p # ps) [] = []"
| "rx_lit_ci (p # ps) (c # cs) = (if ci_eq p c then rx_lit_ci ps cs else [])"

text \<open>Greedy \<open>C*\<close> and \<open>C+\<close> for a character class \<open>C\<close>: the longest run first. Each
  result is the matched text and the rest of the input.\<close>

fun rx_star :: "(char \<Rightarrow> bool) \<Rightarrow> string \<Rightarrow> (string \<times> string) list" where
  "rx_star P [] = [([], [])]"
| "rx_star P (c # cs) =
     (if P c then map (\<lambda>(m, r). (c # m, r)) (rx_star P cs) @ [([], c # cs)] else [([], c # cs)])"

fun rx_plus :: "(char \<Rightarrow> bool) \<Rightarrow> string \<Rightarrow> (string \<times> string) list" where
  "rx_plus P [] = []"
| "rx_plus P (c # cs) = (if P c then map (\<lambda>(m, r). (c # m, r)) (rx_star P cs) else [])"

text \<open>Lazy \<open>C*?\<close> and \<open>C+?\<close>: the shortest run first.\<close>

fun rx_star_lazy :: "(char \<Rightarrow> bool) \<Rightarrow> string \<Rightarrow> (string \<times> string) list" where
  "rx_star_lazy P [] = [([], [])]"
| "rx_star_lazy P (c # cs) =
     ([], c # cs) # (if P c then map (\<lambda>(m, r). (c # m, r)) (rx_star_lazy P cs) else [])"

fun rx_plus_lazy :: "(char \<Rightarrow> bool) \<Rightarrow> string \<Rightarrow> (string \<times> string) list" where
  "rx_plus_lazy P [] = []"
| "rx_plus_lazy P (c # cs) = (if P c then map (\<lambda>(m, r). (c # m, r)) (rx_star_lazy P cs) else [])"

text \<open>The anchor \<open>$\<close> (no \<open>m\<close> flag): the end of the input.\<close>

definition rx_end :: "string \<Rightarrow> unit list" where
  "rx_end s = (if s = [] then [()] else [])"

section \<open>init.js: the constants\<close>

definition NAMING_TOKEN :: string where
  "NAMING_TOKEN = ''CUSTOMCLASS''"

text \<open>\<open>REGEX_NAMING_ITEM = /^\(\s*customclass\s*\)\s*(.+)$/i\<close>; the result is group 1.\<close>

definition REGEX_NAMING_ITEM :: "string \<Rightarrow> string list" where
  "REGEX_NAMING_ITEM name = do {
     r0 \<leftarrow> rx_lit ''('' name;
     (_, r1) \<leftarrow> rx_star is_space r0;
     r2 \<leftarrow> rx_lit_ci ''customclass'' r1;
     (_, r3) \<leftarrow> rx_star is_space r2;
     r4 \<leftarrow> rx_lit '')'' r3;
     (_, r5) \<leftarrow> rx_star is_space r4;
     (label, r6) \<leftarrow> rx_plus is_dot r5;
     _ \<leftarrow> rx_end r6;
     [label]
   }"

text \<open>\<open>REGEX_PREFIXED_SKILL = /^\(\s*([^)]+?)\s*(?:\^(\d+))?\)\s*(.*)$/\<close>, in three parts:
  the optional group \<open>(?:\^(\d+))?\<close> (group 2, \<open>None\<close> when it did not take part), what
  follows group 1, and the whole expression; the result is groups 1, 2 and 3.\<close>

definition rx_weight :: "string \<Rightarrow> (string option \<times> string) list" where
  "rx_weight s = (do { r0 \<leftarrow> rx_lit ''^'' s; (w, r1) \<leftarrow> rx_plus is_digit r0; [(Some w, r1)] })
     @ [(None, s)]"

definition rx_prefixed_tail :: "string \<Rightarrow> (string option \<times> string) list" where
  "rx_prefixed_tail s = do {
     (_, r3) \<leftarrow> rx_star is_space s;
     (w, r4) \<leftarrow> rx_weight r3;
     r5 \<leftarrow> rx_lit '')'' r4;
     (_, r6) \<leftarrow> rx_star is_space r5;
     (skillName, r7) \<leftarrow> rx_star is_dot r6;
     _ \<leftarrow> rx_end r7;
     [(w, skillName)]
   }"

definition REGEX_PREFIXED_SKILL :: "string \<Rightarrow> (string \<times> string option \<times> string) list" where
  "REGEX_PREFIXED_SKILL name = do {
     r0 \<leftarrow> rx_lit ''('' name;
     (_, r1) \<leftarrow> rx_star is_space r0;
     (cls, r2) \<leftarrow> rx_plus_lazy not_rparen r1;
     (w, skillName) \<leftarrow> rx_prefixed_tail r2;
     [(cls, w, skillName)]
   }"

section \<open>utils.js: the parsers\<close>

record Parsed =
  className :: string
  weight :: nat
  skillName :: string

text \<open>\<open>parsePrefixedSkillName\<close>: \<open>null\<close> is \<open>None\<close>.\<close>

definition parsePrefixedSkillName :: "string \<Rightarrow> Parsed option" where
  "parsePrefixedSkillName name =
     (case first (REGEX_PREFIXED_SKILL name) of
        None \<Rightarrow> None
      | Some (cls, w, sk) \<Rightarrow>
          Some \<lparr> className = trim cls,
                 weight = (case w of Some ds \<Rightarrow> parseInt10 ds | None \<Rightarrow> 0),
                 skillName = trim sk \<rparr>)"

text \<open>\<open>parseNamingItem\<close>: \<open>null\<close> is \<open>None\<close>.\<close>

definition parseNamingItem :: "string \<Rightarrow> string option" where
  "parseNamingItem name =
     (case first (REGEX_NAMING_ITEM name) of
        None \<Rightarrow> None
      | Some m1 \<Rightarrow> Some (trim m1))"

text \<open>The truth value of a \<open>string|null\<close>: \<open>null\<close> and the empty string are falsy.\<close>

definition truthy :: "string option \<Rightarrow> bool" where
  "truthy v = (case v of None \<Rightarrow> False | Some s \<Rightarrow> s \<noteq> [])"

section \<open>utils.js: grouping the skills of an actor\<close>

text \<open>An item of the actor, with the fields the helpers read: \<open>type\<close> (read as
  \<open>item.type ?? ""\<close>), \<open>name\<close>, \<open>system?.description?.value\<close> and \<open>updateTime\<close>; an
  absent field is \<open>None\<close>. The actor is the list of its items, in iteration order.\<close>

record Item =
  item_id :: string
  item_type :: "string option"
  name :: string
  description :: "string option"
  updateTime :: "int option"

text \<open>\<open>Array.prototype.sort(cmp)\<close>: the sort is stable, and for a consistent comparator
  its result is the one stable sorted rearrangement, computed here by insertion. \<open>cmp a b\<close>
  negative puts \<open>a\<close> first, positive puts \<open>b\<close> first, zero keeps their order.\<close>

fun insort_cmp :: "('a \<Rightarrow> 'a \<Rightarrow> int) \<Rightarrow> 'a \<Rightarrow> 'a list \<Rightarrow> 'a list" where
  "insort_cmp cmp x [] = [x]"
| "insort_cmp cmp x (y # ys) = (if cmp x y \<le> 0 then x # y # ys else y # insort_cmp cmp x ys)"

definition Array_sort :: "('a \<Rightarrow> 'a \<Rightarrow> int) \<Rightarrow> 'a list \<Rightarrow> 'a list" where
  "Array_sort cmp xs = foldr (insort_cmp cmp) xs []"

text \<open>The object \<open>grouped\<close>: its own properties, kept here in creation order, each an
  array of \<open>{ item, parsed }\<close> (\<open>Object_keys\<close> below is the order in which \<open>Object.keys\<close>
  lists them). It is created as \<open>{}\<close>, so a property it does not own is looked up on
  \<open>Object.prototype\<close>, whose properties are all truthy and none of which has \<open>push\<close>.\<close>

type_synonym Member = "Item \<times> Parsed"

type_synonym Grouped = "(string \<times> Member list) list"

definition Object_prototype_keys :: "string list" where
  "Object_prototype_keys =
     [''constructor'', ''__proto__'', ''hasOwnProperty'', ''isPrototypeOf'',
      ''propertyIsEnumerable'', ''toLocaleString'', ''toString'', ''valueOf'',
      ''__defineGetter__'', ''__defineSetter__'', ''__lookupGetter__'', ''__lookupSetter__'']"

datatype error = TypeError

text \<open>\<open>if (!grouped[className]) grouped[className] = []; grouped[className].push(m)\<close>.\<close>

fun set_own :: "Grouped \<Rightarrow> string \<Rightarrow> Member list \<Rightarrow> Grouped" where
  "set_own [] k v = [(k, v)]"
| "set_own ((k', v') # g) k v = (if k' = k then (k, v) # g else (k', v') # set_own g k v)"

definition push_member :: "Grouped \<Rightarrow> string \<Rightarrow> Member \<Rightarrow> error + Grouped" where
  "push_member grouped cls m =
     (case map_of grouped cls of
        Some ms \<Rightarrow> Inr (set_own grouped cls (ms @ [m]))
      | None \<Rightarrow>
          if cls \<in> set Object_prototype_keys then Inl TypeError
          else Inr (set_own grouped cls [m]))"



definition is_skill :: "Item \<Rightarrow> bool" where
  "is_skill item = (toLowerCase (case item_type item of None \<Rightarrow> [] | Some t \<Rightarrow> t) = ''skill'')"

text \<open>The body of the loop over \<open>actor.items\<close>, on the pair of \<open>grouped\<close> and
  \<open>occupational\<close>; each \<open>continue\<close> returns the pair.\<close>

fun group_item :: "Grouped \<times> Item list \<Rightarrow> Item \<Rightarrow> error + (Grouped \<times> Item list)" where
  "group_item (grouped, occupational) item =
     (if \<not> is_skill item then Inr (grouped, occupational)
      else if truthy (parseNamingItem (name item)) then Inr (grouped, occupational)
      else
        (case parsePrefixedSkillName (name item) of
           None \<Rightarrow> Inr (grouped, occupational @ [item])
         | Some parsed \<Rightarrow>
             if toLowerCase (trim (className parsed)) = toLowerCase NAMING_TOKEN
             then Inr (grouped, occupational)
             else
               (case push_member grouped (className parsed) (item, parsed) of
                  Inl e \<Rightarrow> Inl e
                | Inr grouped' \<Rightarrow> Inr (grouped', occupational))))"

fun group_loop :: "Grouped \<times> Item list \<Rightarrow> Item list \<Rightarrow> error + (Grouped \<times> Item list)" where
  "group_loop acc [] = Inr acc"
| "group_loop acc (item # items) =
     (case group_item acc item of Inl e \<Rightarrow> Inl e | Inr acc' \<Rightarrow> group_loop acc' items)"

text \<open>The two comparators of \<open>groupActorSkills\<close>.\<close>

definition cmp_member :: "Member \<Rightarrow> Member \<Rightarrow> int" where
  "cmp_member a b =
     (if weight (snd b) \<noteq> weight (snd a) then int (weight (snd b)) - int (weight (snd a))
      else localeCompare_base (skillName (snd a)) (skillName (snd b)))"

definition cmp_name :: "Item \<Rightarrow> Item \<Rightarrow> int" where
  "cmp_name a b = localeCompare_base (name a) (name b)"

record Result =
  grouped :: Grouped
  occupational :: "Item list"

definition groupActorSkills :: "Item list \<Rightarrow> error + Result" where
  "groupActorSkills items =
     (case group_loop ([], []) items of
        Inl e \<Rightarrow> Inl e
      | Inr (g, occ) \<Rightarrow>
          Inr \<lparr> grouped = map (\<lambda>(k, ms). (k, Array_sort cmp_member ms)) g,
                occupational = Array_sort cmp_name occ \<rparr>)"

section \<open>utils.js: the label and the icon of the custom class\<close>

definition namingSkills :: "Item list \<Rightarrow> Item list" where
  "namingSkills items = filter (\<lambda>i. is_skill i \<and> truthy (parseNamingItem (name i))) items"

text \<open>\<open>(a.updateTime || 0) - (b.updateTime || 0)\<close>.\<close>

definition or0 :: "int option \<Rightarrow> int" where
  "or0 t = (case t of None \<Rightarrow> 0 | Some n \<Rightarrow> n)"

definition cmp_updateTime :: "Item \<Rightarrow> Item \<Rightarrow> int" where
  "cmp_updateTime a b = or0 (updateTime a) - or0 (updateTime b)"

text \<open>\<open>getCustomClassLabel\<close>; \<open>.at(-1)\<close> of the sorted, non-empty array is its last
  element.\<close>

definition getCustomClassLabel :: "Item list \<Rightarrow> string option" where
  "getCustomClassLabel items =
     (if namingSkills items = [] then None
      else parseNamingItem (name (last (Array_sort cmp_updateTime (namingSkills items)))))"

text \<open>The expression \<open>/<p>\s*icon:\s*([a-z0-9\-]+)\s*<\/p>/i\<close> at one position of the
  input, and the search for its leftmost match; the result is group 1.\<close>

definition REGEX_ICON_at :: "string \<Rightarrow> string list" where
  "REGEX_ICON_at s = do {
     r0 \<leftarrow> rx_lit_ci ''<p>'' s;
     (_, r1) \<leftarrow> rx_star is_space r0;
     r2 \<leftarrow> rx_lit_ci ''icon:'' r1;
     (_, r3) \<leftarrow> rx_star is_space r2;
     (icon, r4) \<leftarrow> rx_plus is_icon_char r3;
     (_, r5) \<leftarrow> rx_star is_space r4;
     _ \<leftarrow> rx_lit_ci ''</p>'' r5;
     [icon]
   }"

fun REGEX_ICON :: "string \<Rightarrow> string option" where
  "REGEX_ICON [] = first (REGEX_ICON_at [])"
| "REGEX_ICON (c # cs) =
     (case first (REGEX_ICON_at (c # cs)) of Some m1 \<Rightarrow> Some m1 | None \<Rightarrow> REGEX_ICON cs)"

text \<open>\<open>/^fa-[a-z0-9\-]+$/i.test(s)\<close>.\<close>

definition REGEX_FA_test :: "string \<Rightarrow> bool" where
  "REGEX_FA_test s =
     (do { r0 \<leftarrow> rx_lit_ci ''fa-'' s; (_, r1) \<leftarrow> rx_plus is_icon_char r0; rx_end r1 } \<noteq> [])"

definition parseCustomClassIcon :: "string \<Rightarrow> string option" where
  "parseCustomClassIcon descriptionHTML =
     (if descriptionHTML = [] then None
      else
        (case REGEX_ICON descriptionHTML of
           None \<Rightarrow> None
         | Some m1 \<Rightarrow>
             (let iconClass = trim m1
              in if \<not> REGEX_FA_test iconClass then None else Some iconClass)))"

definition DEFAULT_ICON :: string where
  "DEFAULT_ICON = ''fa-solid fa-circle-exclamation''"

definition getCustomClassIcon :: "Item list \<Rightarrow> string" where
  "getCustomClassIcon items =
     (if namingSkills items = [] then DEFAULT_ICON
      else
        (let namingSkill = last (Array_sort cmp_updateTime (namingSkills items));
             descriptionHTML = (case description namingSkill of None \<Rightarrow> [] | Some d \<Rightarrow> d);
             iconClass = parseCustomClassIcon descriptionHTML
         in if \<not> truthy iconClass then DEFAULT_ICON
            else
              (let ic = (case iconClass of None \<Rightarrow> [] | Some s \<Rightarrow> s)
               in if startsWith ic ''fa-'' \<and> \<not> startsWith ic ''fa-solid''
                     \<and> \<not> startsWith ic ''fa-regular'' \<and> \<not> startsWith ic ''fa-brands''
                  then ''fa-solid '' @ ic
                  else ic)))"

section \<open>The sheet: the order of the groups\<close>



section \<open>Notions used to state the properties\<close>

text \<open>The token of a name, as the loop of \<open>groupActorSkills\<close> tells the names apart: a
  naming item when \<open>parseNamingItem\<close> gives a truthy label, else a prefixed skill when
  \<open>parsePrefixedSkillName\<close> matches, else plain.\<close>

datatype ParsedToken = NamingToken string | PrefixedSkill Parsed | Plain

definition parseName :: "string \<Rightarrow> ParsedToken" where
  "parseName s =
     (if truthy (parseNamingItem s)
      then NamingToken (case parseNamingItem s of None \<Rightarrow> [] | Some label \<Rightarrow> label)
      else (case parsePrefixedSkillName s of None \<Rightarrow> Plain | Some parsed \<Rightarrow> PrefixedSkill parsed))"

text \<open>A class-name text that ends with \<open>^\<close> and decimal digits: the expression reads those
  digits as the weight.\<close>

definition has_weight_suffix :: "string \<Rightarrow> bool" where
  "has_weight_suffix c =
     (takeWhile is_digit (rev c) \<noteq> [] \<and>
      (case dropWhile is_digit (rev c) of [] \<Rightarrow> False | x # _ \<Rightarrow> x = CHR ''^''))"


text \<open>The items of all the groups of \<open>grouped\<close>.\<close>

definition grouped_items :: "Grouped \<Rightarrow> Item list" where
  "grouped_items g = concat (map (\<lambda>(k, ms). map fst ms) g)"

text \<open>A skill item with a name, no description and no update time.\<close>

abbreviation skill :: "string \<Rightarrow> string \<Rightarrow> Item" where
  "skill i n \<equiv> \<lparr> item_id = i, item_type = Some ''skill'', name = n, description = None, updateTime = None \<rparr>"






text \<open>The update time of a record, 0 when it has none.\<close>

definition updatedAt :: "Item \<Rightarrow> int" where
  "updatedAt i = (case updateTime i of Some t \<Rightarrow> t | None \<Rightarrow> 0)"




section \<open>Lemmas: lists of matches\<close>


lemma first_Cons: "first (x # xs) = Some x" by (simp add: first_def)

lemma first_append: "first (xs @ ys) = (case first xs of Some x \<Rightarrow> Some x | None \<Rightarrow> first ys)"
  by (cases xs) (simp_all add: first_def)

lemma first_None_iff: "first xs = None \<longleftrightarrow> xs = []"
  by (cases xs) (simp_all add: first_def)

lemma first_bind_single: "List.bind [a] f = f a"
  by simp

lemma first_bind_Cons: "first (f a) = Some y \<Longrightarrow> first (List.bind (a # as) f) = Some y"
  by (simp add: first_append)

lemma first_bind_skip: "f a = [] \<Longrightarrow> first (List.bind (a # as) f) = first (List.bind as f)"
  by simp

lemma bind_Nil_all: "(\<And>a. a \<in> set xs \<Longrightarrow> f a = []) \<Longrightarrow> List.bind xs f = []"
  by (induction xs) simp_all

lemma rx_star_split: "(m, r) \<in> set (rx_star P s) \<Longrightarrow> s = m @ r \<and> list_all P m"
  by (induction s arbitrary: m r) (auto split: if_splits)

lemma rx_plus_split: "(m, r) \<in> set (rx_plus P s) \<Longrightarrow> s = m @ r \<and> list_all P m \<and> m \<noteq> []"
  by (cases s) (auto split: if_splits dest: rx_star_split)

lemma rx_star_lazy_split: "(m, r) \<in> set (rx_star_lazy P s) \<Longrightarrow> s = m @ r \<and> list_all P m"
  by (induction s arbitrary: m r) (auto split: if_splits)

lemma rx_plus_lazy_split: "(m, r) \<in> set (rx_plus_lazy P s) \<Longrightarrow> s = m @ r \<and> list_all P m \<and> m \<noteq> []"
  by (cases s) (auto split: if_splits dest: rx_star_lazy_split)

lemma rx_lit_split: "r \<in> set (rx_lit p s) \<Longrightarrow> s = p @ r"
  by (induction p s rule: rx_lit.induct) (auto split: if_splits)

lemma rx_lit_ci_split: "r \<in> set (rx_lit_ci p s) \<Longrightarrow> \<exists>m. s = m @ r \<and> list_all2 ci_eq p m"
proof (induction p s rule: rx_lit_ci.induct)
  case (3 p ps c cs)
  then have c: "ci_eq p c" and r: "r \<in> set (rx_lit_ci ps cs)" by (auto split: if_splits)
  from 3(1)[OF c r] obtain m where "cs = m @ r" "list_all2 ci_eq ps m" by blast
  then have "c # cs = (c # m) @ r \<and> list_all2 ci_eq (p # ps) (c # m)" using c by simp
  then show ?case by blast
qed auto

lemma rx_lit_append: "rx_lit p (p @ r) = [r]"
  by (induction p) simp_all

lemma rx_lit_ci_append: "list_all2 ci_eq p m \<Longrightarrow> rx_lit_ci p (m @ r) = [r]"
  by (induction p m rule: list_all2_induct) simp_all

lemma rx_star_enum:
  "rx_star P s = map (\<lambda>i. (take i s, drop i s)) (rev [0..<Suc (length (takeWhile P s))])"
proof (induction s)
  case Nil show ?case by simp
next
  case (Cons c cs)
  show ?case
  proof (cases "P c")
    case False then show ?thesis by simp
  next
    case True
    let ?n = "length (takeWhile P cs)"
    have "rev [0..<Suc (Suc ?n)] = map Suc (rev [0..<Suc ?n]) @ [0]"
      by (metis (no_types) map_Suc_upt rev.simps(2) rev_map upt_conv_Cons zero_less_Suc)
    then show ?thesis using True Cons by (simp add: comp_def del: upt_Suc)
  qed
qed

lemma rx_star_lazy_enum:
  "rx_star_lazy P s = map (\<lambda>i. (take i s, drop i s)) [0..<Suc (length (takeWhile P s))]"
proof (induction s)
  case Nil show ?case by simp
next
  case (Cons c cs)
  show ?case
  proof (cases "P c")
    case False then show ?thesis by simp
  next
    case True
    let ?n = "length (takeWhile P cs)"
    have "[0..<Suc (Suc ?n)] = 0 # map Suc [0..<Suc ?n]"
      by (metis map_Suc_upt upt_conv_Cons zero_less_Suc)
    then show ?thesis using True Cons by (simp add: comp_def del: upt_Suc)
  qed
qed

lemma rx_plus_lazy_enum:
  "rx_plus_lazy P s = map (\<lambda>i. (take i s, drop i s)) [1..<Suc (length (takeWhile P s))]"
proof (cases s)
  case Nil then show ?thesis by simp
next
  case (Cons c cs)
  show ?thesis
  proof (cases "P c")
    case False then show ?thesis using Cons by simp
  next
    case True
    let ?n = "length (takeWhile P cs)"
    have "[1..<Suc (Suc ?n)] = map Suc [0..<Suc ?n]"
      by (metis One_nat_def map_Suc_upt)
    then show ?thesis using True Cons by (simp add: comp_def rx_star_lazy_enum del: upt_Suc)
  qed
qed

lemma rx_plus_enum:
  "rx_plus P s = map (\<lambda>i. (take i s, drop i s)) (rev [1..<Suc (length (takeWhile P s))])"
proof (cases s)
  case Nil then show ?thesis by simp
next
  case (Cons c cs)
  show ?thesis
  proof (cases "P c")
    case False then show ?thesis using Cons by simp
  next
    case True
    let ?n = "length (takeWhile P cs)"
    have "rev [1..<Suc (Suc ?n)] = map Suc (rev [0..<Suc ?n])"
      by (metis One_nat_def map_Suc_upt rev_map)
    then show ?thesis using True Cons by (simp add: comp_def rx_star_enum del: upt_Suc)
  qed
qed

lemma first_bind_upt:
  "a \<le> k \<Longrightarrow> k < b \<Longrightarrow> (\<And>i. a \<le> i \<Longrightarrow> i < k \<Longrightarrow> f (g i) = []) \<Longrightarrow> first (f (g k)) = Some y
   \<Longrightarrow> first (List.bind (map g [a..<b]) f) = Some y"
proof (induction "k - a" arbitrary: a)
  case 0
  then have "a = k" by simp
  then have "[a..<b] = k # [Suc k..<b]" using 0 by (simp add: upt_conv_Cons)
  then show ?case using 0 by (simp add: first_append)
next
  case (Suc n)
  then have ak: "a < k" by simp
  then have e: "[a..<b] = a # [Suc a..<b]" using Suc by (simp add: upt_conv_Cons)
  have "f (g a) = []" using Suc(5)[of a] ak by simp
  moreover have "first (List.bind (map g [Suc a..<b]) f) = Some y"
    using Suc(1)[of "Suc a"] Suc(2-6) ak by simp
  ultimately show ?case using e by simp
qed

lemma first_bind_rev_upt:
  "a \<le> k \<Longrightarrow> k < b \<Longrightarrow> (\<And>i. k < i \<Longrightarrow> i < b \<Longrightarrow> f (g i) = []) \<Longrightarrow> first (f (g k)) = Some y
   \<Longrightarrow> first (List.bind (map g (rev [a..<b])) f) = Some y"
proof (induction "b - k" arbitrary: b)
  case 0 then show ?case by simp
next
  case (Suc n)
  then obtain b' where b: "b = Suc b'" by (cases b) auto
  show ?case
  proof (cases "b' = k")
    case True
    then show ?thesis using Suc b by (simp add: first_append)
  next
    case False
    then have kb: "k < b'" using Suc b by simp
    have "f (g b') = []" using Suc(5)[of b'] kb b by simp
    moreover have "first (List.bind (map g (rev [a..<b'])) f) = Some y"
      using Suc(1)[of b'] Suc(2-6) b kb by simp
    ultimately show ?thesis using b Suc(3) kb by simp
  qed
qed


lemma first_bind_rx_star:
  assumes "k \<le> length (takeWhile P s)"
    and "\<And>i. k < i \<Longrightarrow> i \<le> length (takeWhile P s) \<Longrightarrow> f (take i s, drop i s) = []"
    and "first (f (take k s, drop k s)) = Some y"
  shows "first (List.bind (rx_star P s) f) = Some y"
  unfolding rx_star_enum
  by (rule first_bind_rev_upt [where k = k]) (use assms in auto)

lemma first_bind_rx_star_greedy:
  assumes "first (f (takeWhile P s, dropWhile P s)) = Some y"
  shows "first (List.bind (rx_star P s) f) = Some y"
  by (rule first_bind_rx_star [where k = "length (takeWhile P s)"])
     (use assms in \<open>simp_all flip: takeWhile_eq_take dropWhile_eq_drop\<close>)

lemma first_bind_rx_plus_greedy:
  assumes "takeWhile P s \<noteq> []" and "first (f (takeWhile P s, dropWhile P s)) = Some y"
  shows "first (List.bind (rx_plus P s) f) = Some y"
  unfolding rx_plus_enum
  by (rule first_bind_rev_upt [where k = "length (takeWhile P s)"])
     (use assms in \<open>simp_all add: Suc_le_eq flip: takeWhile_eq_take dropWhile_eq_drop\<close>)

lemma first_bind_rx_plus_lazy:
  assumes "1 \<le> k" and "k \<le> length (takeWhile P s)"
    and "\<And>i. 1 \<le> i \<Longrightarrow> i < k \<Longrightarrow> f (take i s, drop i s) = []"
    and "first (f (take k s, drop k s)) = Some y"
  shows "first (List.bind (rx_plus_lazy P s) f) = Some y"
  unfolding rx_plus_lazy_enum
  by (rule first_bind_upt [where k = k]) (use assms in auto)

lemma rx_weight_shape:
  "(w, r) \<in> set (rx_weight s) \<Longrightarrow>
     (w = None \<and> r = s) \<or> (\<exists>d. w = Some d \<and> s = ''^'' @ d @ r \<and> d \<noteq> [] \<and> list_all is_digit d)"
  by (auto simp: rx_weight_def set_list_bind dest!: rx_lit_split rx_plus_split)

lemma rx_prefixed_tail_shape:
  assumes "(w, sk) \<in> set (rx_prefixed_tail s)"
  shows "\<exists>sp1 sp2. list_all is_space sp1 \<and> list_all is_space sp2 \<and> list_all is_dot sk \<and>
     (case w of None \<Rightarrow> s = sp1 @ '')'' @ sp2 @ sk
      | Some d \<Rightarrow> d \<noteq> [] \<and> list_all is_digit d \<and> s = sp1 @ ''^'' @ d @ '')'' @ sp2 @ sk)"
proof -
  from assms obtain sp1 r3 r4 r5 sp2 r6 r7 where
    a: "(sp1, r3) \<in> set (rx_star is_space s)" and b: "(w, r4) \<in> set (rx_weight r3)"
    and c: "r5 \<in> set (rx_lit '')'' r4)" and d: "(sp2, r6) \<in> set (rx_star is_space r5)"
    and e: "(sk, r7) \<in> set (rx_star is_dot r6)" and f: "r7 = []"
    by (auto simp: rx_prefixed_tail_def set_list_bind rx_end_def split: if_splits)
  from a have 1: "s = sp1 @ r3" "list_all is_space sp1" by (auto dest: rx_star_split)
  from c have 2: "r4 = '')'' @ r5" by (auto dest: rx_lit_split)
  from d have 3: "r5 = sp2 @ r6" "list_all is_space sp2" by (auto dest: rx_star_split)
  from e f have 4: "r6 = sk" "list_all is_dot sk" by (auto dest: rx_star_split)
  from rx_weight_shape[OF b] show ?thesis
  proof
    assume "w = None \<and> r4 = r3"
    then show ?thesis using 1 2 3 4 by auto
  next
    assume "\<exists>d. w = Some d \<and> r3 = ''^'' @ d @ r4 \<and> d \<noteq> [] \<and> list_all is_digit d"
    then show ?thesis using 1 2 3 4 by auto
  qed
qed


lemma bind_singleton_map: "List.bind xs (\<lambda>x. [h x]) = map h xs"
  by (induction xs) simp_all

lemma bind_map: "List.bind (map h xs) f = List.bind xs (\<lambda>x. f (h x))"
  by (induction xs) simp_all

lemma bind_append: "List.bind (xs @ ys) f = List.bind xs f @ List.bind ys f"
  by (induction xs) simp_all

lemma rx_weight_caret:
  "rx_weight (CHR ''^'' # cs) = map (\<lambda>(w, r). (Some w, r)) (rx_plus is_digit cs) @ [(None, CHR ''^'' # cs)]"
proof -
  have "List.bind xs (\<lambda>(w, r1). [(Some w, r1)]) = map (\<lambda>(w, r). (Some w, r)) xs"
    for xs :: "(string \<times> string) list"
    by (induction xs) auto
  then show ?thesis by (simp add: rx_weight_def)
qed

lemma rx_weight_other: "s = [] \<or> hd s \<noteq> CHR ''^'' \<Longrightarrow> rx_weight s = [(None, s)]"
  by (cases s) (auto simp: rx_weight_def)

lemma takeWhile_all_append:
  "list_all P xs \<Longrightarrow> ys = [] \<or> \<not> P (hd ys) \<Longrightarrow> takeWhile P (xs @ ys) = xs"
  by (cases ys) (auto simp: list_all_iff takeWhile_append2)

lemma dropWhile_all_append:
  "list_all P xs \<Longrightarrow> dropWhile P (xs @ ys) = dropWhile P ys"
  by (auto simp: list_all_iff dropWhile_append2)

lemma dropWhile_stop: "ys = [] \<or> \<not> P (hd ys) \<Longrightarrow> dropWhile P ys = ys"
  by (cases ys) auto

lemma first_bind_rx_weight_Some:
  assumes "ds \<noteq> []" "list_all is_digit ds" "rest = [] \<or> \<not> is_digit (hd rest)"
    and "first (f (Some ds, rest)) = Some y"
  shows "first (List.bind (rx_weight (CHR ''^'' # ds @ rest)) f) = Some y"
proof -
  have t: "takeWhile is_digit (ds @ rest) = ds" using assms by (simp add: takeWhile_all_append)
  have d: "dropWhile is_digit (ds @ rest) = rest"
    using assms by (simp add: dropWhile_all_append dropWhile_stop)
  have "first (List.bind (rx_plus is_digit (ds @ rest)) (\<lambda>x. f ((\<lambda>(w, r). (Some w, r)) x))) = Some y"
    by (rule first_bind_rx_plus_greedy) (use assms t d in simp_all)
  then show ?thesis
    by (simp add: rx_weight_caret bind_append bind_map first_append)
qed

lemma rx_prefixed_close:
  assumes "list_all is_dot (dropWhile is_space r)"
  shows "first (do { r5 \<leftarrow> rx_lit '')'' (CHR '')'' # r);
                    (_, r6) \<leftarrow> rx_star is_space r5;
                    (skillName, r7) \<leftarrow> rx_star is_dot r6;
                    _ \<leftarrow> rx_end r7;
                    [(w, skillName)] }) = Some (w, dropWhile is_space r)"
proof -
  have "takeWhile is_dot (dropWhile is_space r) = dropWhile is_space r"
    using assms by (simp add: list_all_iff)
  moreover have "dropWhile is_dot (dropWhile is_space r) = []"
    using assms by (simp add: list_all_iff)
  ultimately show ?thesis
    apply simp
    apply (rule first_bind_rx_star_greedy)
    apply simp
    apply (rule first_bind_rx_star_greedy)
    apply (simp add: rx_end_def first_def)
    done
qed

lemma rx_prefixed_tail_weight:
  assumes "list_all is_space tw" "ds \<noteq> []" "list_all is_digit ds"
    and "list_all is_dot (dropWhile is_space r)"
  shows "first (rx_prefixed_tail (tw @ CHR ''^'' # ds @ CHR '')'' # r)) = Some (Some ds, dropWhile is_space r)"
proof -
  have t: "takeWhile is_space (tw @ CHR ''^'' # ds @ CHR '')'' # r) = tw"
    using assms(1) by (simp add: takeWhile_all_append is_space_def)
  have d: "dropWhile is_space (tw @ CHR ''^'' # ds @ CHR '')'' # r) = CHR ''^'' # ds @ CHR '')'' # r"
    using assms(1) by (simp add: dropWhile_all_append is_space_def)
  show ?thesis
    unfolding rx_prefixed_tail_def
    apply (rule first_bind_rx_star_greedy)
    apply (simp only: t d prod.case)
    apply (rule first_bind_rx_weight_Some)
       apply (use assms in \<open>simp_all add: is_digit_def\<close>)[3]
    apply (simp only: prod.case)
    apply (rule rx_prefixed_close [OF assms(4)])
    done
qed

lemma rx_prefixed_tail_plain:
  assumes "list_all is_space tw" and "list_all is_dot (dropWhile is_space r)"
  shows "first (rx_prefixed_tail (tw @ CHR '')'' # r)) = Some (None, dropWhile is_space r)"
proof -
  have t: "takeWhile is_space (tw @ CHR '')'' # r) = tw"
    using assms(1) by (simp add: takeWhile_all_append is_space_def)
  have d: "dropWhile is_space (tw @ CHR '')'' # r) = CHR '')'' # r"
    using assms(1) by (simp add: dropWhile_all_append is_space_def)
  show ?thesis
    unfolding rx_prefixed_tail_def
    apply (rule first_bind_rx_star_greedy)
    apply (simp only: t d prod.case)
    apply (simp only: rx_weight_other [of "CHR '')'' # r", simplified] List.bind_simps append_Nil2 prod.case)
    apply (rule rx_prefixed_close [OF assms(2)])
    done
qed


lemma split_at_first:
  assumes "a @ x # b = a' @ x # b'" "x \<notin> set a" "x \<notin> set a'"
  shows "a = a' \<and> b = b'"
proof -
  have "takeWhile (\<lambda>y. y \<noteq> x) (a @ x # b) = a" using assms(2) by (induction a) auto
  moreover have "takeWhile (\<lambda>y. y \<noteq> x) (a' @ x # b') = a'" using assms(3) by (induction a') auto
  ultimately have "a = a'" using assms(1) by simp
  then show ?thesis using assms(1) by simp
qed

lemma split_at_last:
  assumes "a @ x # b = a' @ x # b'" "x \<notin> set b" "x \<notin> set b'"
  shows "a = a' \<and> b = b'"
proof -
  have "rev b @ x # rev a = rev b' @ x # rev a'"
    using arg_cong [OF assms(1), of rev] by simp
  then have "rev b = rev b' \<and> rev a = rev a'"
    by (rule split_at_first) (use assms in simp_all)
  then show ?thesis by simp
qed

lemma first_bind_first:
  "first xs = Some a \<Longrightarrow> first (f a) = Some y \<Longrightarrow> first (List.bind xs f) = Some y"
  by (cases xs) (simp_all add: first_def first_append split: list.splits)

lemma space_no_rparen: "list_all is_space xs \<Longrightarrow> CHR '')'' \<notin> set xs"
  by (induction xs) (auto simp: is_space_def)

lemma digit_no_rparen: "list_all is_digit xs \<Longrightarrow> CHR '')'' \<notin> set xs"
  by (induction xs) (auto simp: is_digit_def)

lemma digit_no_caret: "list_all is_digit xs \<Longrightarrow> CHR ''^'' \<notin> set xs"
  by (induction xs) (auto simp: is_digit_def)

lemma not_rparen_no_rparen: "list_all not_rparen xs \<Longrightarrow> CHR '')'' \<notin> set xs"
  by (induction xs) (auto simp: not_rparen_def)

lemma all_space_last: "list_all is_space xs \<Longrightarrow> xs \<noteq> [] \<Longrightarrow> is_space (last xs)"
  by (induction xs) (simp_all)

lemma list_all_appendD1: "list_all P (xs @ ys) \<Longrightarrow> list_all P xs"
  by simp

lemma has_weight_suffixI:
  assumes "d \<noteq> []" "list_all is_digit d"
  shows "has_weight_suffix (x @ CHR ''^'' # d)"
proof -
  have r: "rev (x @ CHR ''^'' # d) = rev d @ CHR ''^'' # rev x" by simp
  have a: "list_all is_digit (rev d)" using assms(2) by (simp add: list_all_iff)
  have "takeWhile is_digit (rev d @ CHR ''^'' # rev x) = rev d"
    using a by (simp add: takeWhile_all_append is_digit_def)
  moreover have "dropWhile is_digit (rev d @ CHR ''^'' # rev x) = CHR ''^'' # rev x"
    using a by (simp add: dropWhile_all_append is_digit_def)
  ultimately show ?thesis using assms(1) unfolding has_weight_suffix_def r by simp
qed

text \<open>No proper suffix of the class text starts a match of what follows group 1.\<close>

lemma rx_prefixed_tail_fails:
  assumes u: "u \<noteq> []" "\<not> is_space (last u)" "list_all not_rparen u"
    and tw: "list_all is_space tw"
    and t: "(\<exists>ds. t = CHR ''^'' # ds \<and> list_all is_digit ds) \<or> (t = [] \<and> \<not> has_weight_suffix (p @ u @ tw))"
  shows "rx_prefixed_tail (u @ tw @ t @ CHR '')'' # r) = []"
proof (rule ccontr)
  assume "rx_prefixed_tail (u @ tw @ t @ CHR '')'' # r) \<noteq> []"
  then obtain w sk where "(w, sk) \<in> set (rx_prefixed_tail (u @ tw @ t @ CHR '')'' # r))"
    by (cases "rx_prefixed_tail (u @ tw @ t @ CHR '')'' # r)") auto
  from rx_prefixed_tail_shape [OF this] obtain sp1 sp2 where
    sp1: "list_all is_space sp1" and
    sh: "(case w of None \<Rightarrow> u @ tw @ t @ CHR '')'' # r = sp1 @ '')'' @ sp2 @ sk
      | Some d \<Rightarrow> d \<noteq> [] \<and> list_all is_digit d \<and> u @ tw @ t @ CHR '')'' # r = sp1 @ ''^'' @ d @ '')'' @ sp2 @ sk)"
    by blast
  have tnp: "CHR '')'' \<notin> set t"
  proof (cases "t = []")
    case True then show ?thesis by simp
  next
    case False
    then obtain ds where "t = CHR ''^'' # ds" "list_all is_digit ds" using t by blast
    then show ?thesis using digit_no_rparen [of ds] by simp
  qed
  have np: "CHR '')'' \<notin> set (u @ tw @ t)"
    using not_rparen_no_rparen [OF u(3)] space_no_rparen [OF tw] tnp by simp
  have np1: "CHR '')'' \<notin> set sp1" by (rule space_no_rparen [OF sp1])
  have nsp: "\<not> list_all is_space (u @ xs)" for xs
  proof
    assume "list_all is_space (u @ xs)"
    then have "list_all is_space u" by simp
    then show False using all_space_last u(1,2) by blast
  qed
  show False
  proof (cases w)
    case None
    then have "(u @ tw @ t) @ CHR '')'' # r = sp1 @ CHR '')'' # (sp2 @ sk)" using sh by simp
    from split_at_first [OF this np np1] have "u @ tw @ t = sp1" by simp
    then show False using sp1 nsp by metis
  next
    case (Some d)
    then have d: "d \<noteq> []" "list_all is_digit d"
      and e: "(u @ tw @ t) @ CHR '')'' # r = (sp1 @ CHR ''^'' # d) @ CHR '')'' # (sp2 @ sk)"
      using sh by simp_all
    have "CHR '')'' \<notin> set (sp1 @ CHR ''^'' # d)"
      using np1 digit_no_rparen [OF d(2)] by simp
    from split_at_first [OF e np this] have eq: "u @ tw @ t = sp1 @ CHR ''^'' # d" by simp
    have dc: "CHR ''^'' \<notin> set d" by (rule digit_no_caret [OF d(2)])
    show False
    proof (cases "t = []")
      case False
      then obtain ds where ds: "t = CHR ''^'' # ds" "list_all is_digit ds" using t by blast
      have c: "CHR ''^'' \<notin> set ds" by (rule digit_no_caret [OF ds(2)])
      have "(u @ tw) @ CHR ''^'' # ds = sp1 @ CHR ''^'' # d" using eq ds by simp
      from split_at_last [OF this c dc] have "u @ tw = sp1" by simp
      then show False using sp1 nsp by metis
    next
      case True
      then have a: "\<not> has_weight_suffix (p @ u @ tw)" using t by blast
      have "p @ u @ tw = (p @ sp1) @ CHR ''^'' # d" using eq True by simp
      then have "has_weight_suffix (p @ u @ tw)" using has_weight_suffixI [OF d] by metis
      then show False using a by simp
    qed
  qed
qed


lemma rx_lit_lparen: "rx_lit ''('' (CHR ''('' # s) = [s]"
  by simp

lemma REGEX_PREFIXED_SKILL_match:
  assumes lw: "list_all is_space lw"
    and core: "core \<noteq> []" "\<not> is_space (hd core)" "\<not> is_space (last core)" "list_all not_rparen core"
    and tw: "list_all is_space tw"
    and t: "(\<exists>ds. t = CHR ''^'' # ds \<and> ds \<noteq> [] \<and> list_all is_digit ds \<and> w = Some ds)
            \<or> (t = [] \<and> w = None \<and> \<not> has_weight_suffix (lw @ core @ tw))"
    and r: "list_all is_dot (dropWhile is_space r)"
  shows "first (REGEX_PREFIXED_SKILL (CHR ''('' # lw @ core @ tw @ t @ CHR '')'' # r))
         = Some (core, w, dropWhile is_space r)"
proof -
  let ?rest = "tw @ t @ CHR '')'' # r"
  have t1: "takeWhile is_space (lw @ core @ ?rest) = lw"
    using lw core(1,2) by (cases core) (simp_all add: takeWhile_all_append)
  have d1: "dropWhile is_space (lw @ core @ ?rest) = core @ ?rest"
    using lw core(1,2) by (cases core) (simp_all add: dropWhile_all_append)
  have len: "length core \<le> length (takeWhile not_rparen (core @ ?rest))"
    using core(4) by (simp add: takeWhile_append2 list_all_iff)
  have tk: "take (length core) (core @ ?rest) = core" by simp
  have dk: "drop (length core) (core @ ?rest) = ?rest" by simp
  have tail: "first (rx_prefixed_tail ?rest) = Some (w, dropWhile is_space r)"
  proof (cases "t = []")
    case True
    then show ?thesis using t rx_prefixed_tail_plain [OF tw r] by auto
  next
    case False
    then obtain ds where "t = CHR ''^'' # ds" "ds \<noteq> []" "list_all is_digit ds" "w = Some ds"
      using t by blast
    then show ?thesis using rx_prefixed_tail_weight [OF tw _ _ r, of ds] by simp
  qed
  have fails: "rx_prefixed_tail (drop i (core @ ?rest)) = []" if i: "1 \<le> i" "i < length core" for i
  proof -
    let ?u = "drop i core"
    have u: "?u \<noteq> []" "\<not> is_space (last ?u)" "list_all not_rparen ?u"
      using i core by (simp_all add: list_all_iff) (meson in_set_dropD)
    have "(lw @ take i core) @ ?u @ tw = lw @ core @ tw"
      by (metis append.assoc append_take_drop_id)
    then have t': "(\<exists>ds. t = CHR ''^'' # ds \<and> list_all is_digit ds)
        \<or> (t = [] \<and> \<not> has_weight_suffix ((lw @ take i core) @ ?u @ tw))"
      using t by metis
    have "drop i (core @ ?rest) = ?u @ tw @ t @ CHR '')'' # r" using i by simp
    then show ?thesis using rx_prefixed_tail_fails [OF u tw t'] by simp
  qed
  show ?thesis
    unfolding REGEX_PREFIXED_SKILL_def
    apply (simp only: rx_lit_lparen List.bind_simps append_Nil2)
    apply (rule first_bind_rx_star_greedy)
    apply (simp only: t1 d1 prod.case)
    apply (rule first_bind_rx_plus_lazy [where k = "length core"])
    subgoal using core(1) by (cases core) simp_all
    subgoal by (rule len)
    subgoal for i by (simp only: prod.case fails List.bind_simps)
    subgoal
      apply (simp only: tk dk prod.case)
      apply (rule first_bind_first [OF tail])
      apply (simp add: first_def)
      done
    done
qed

lemma REGEX_PREFIXED_SKILL_blank:
  assumes w: "w \<noteq> []" "list_all is_space w" and r: "list_all is_dot (dropWhile is_space r)"
  shows "first (REGEX_PREFIXED_SKILL (CHR ''('' # w @ CHR '')'' # r))
         = Some ([last w], None, dropWhile is_space r)"
proof -
  let ?s = "w @ CHR '')'' # r"
  have t1: "takeWhile is_space ?s = w" using w by (simp add: takeWhile_all_append is_space_def)
  have lw: "length w - 1 < length w" using w by (cases w) simp_all
  obtain b l where bl: "w = b @ [l]" using w(1) by (cases w rule: rev_cases) auto
  have tk: "drop (length w - 1) ?s = last w # CHR '')'' # r"
    unfolding bl by simp
  have nl: "last w \<noteq> CHR '')''"
    using all_space_last [OF w(2,1)] by (auto simp: is_space_def)
  have tail: "first (rx_prefixed_tail ([] @ CHR '')'' # r)) = Some (None, dropWhile is_space r)"
    by (rule rx_prefixed_tail_plain [OF _ r]) simp
  show ?thesis
    unfolding REGEX_PREFIXED_SKILL_def
    apply (simp only: rx_lit_lparen List.bind_simps append_Nil2)
    apply (rule first_bind_rx_star [where k = "length w - 1"])
    subgoal using t1 by simp
    subgoal for i using t1 lw by (simp add: not_rparen_def)
    subgoal
      apply (simp only: tk prod.case)
      apply (simp add: nl not_rparen_def)
      apply (rule first_bind_first [OF tail [simplified]])
      apply (simp add: first_def)
      done
    done
qed

section \<open>Lemmas: the two name parsers\<close>

lemma trim_core:
  assumes "list_all is_space lw" "list_all is_space tw"
    and "core \<noteq> []" "\<not> is_space (hd core)" "\<not> is_space (last core)"
  shows "trim (lw @ core @ tw) = core"
proof -
  have a: "dropWhile is_space (lw @ core @ tw) = core @ tw"
    using assms(1,3,4) by (cases core) (simp_all add: dropWhile_all_append)
  have "rev (core @ tw) = rev tw @ rev core" by simp
  moreover have "list_all is_space (rev tw)" using assms(2) by (simp add: list_all_iff)
  moreover have "rev core \<noteq> []" "\<not> is_space (hd (rev core))"
    using assms(3,5) by (simp_all add: hd_rev)
  ultimately have "dropWhile is_space (rev (core @ tw)) = rev core"
    by (cases "rev core") (simp_all add: dropWhile_all_append)
  then show ?thesis by (simp add: trim_def a del: rev_append)
qed

lemma trim_decomp:
  assumes "trim c \<noteq> []"
  shows "\<exists>lw tw. c = lw @ trim c @ tw \<and> list_all is_space lw \<and> list_all is_space tw
           \<and> \<not> is_space (hd (trim c)) \<and> \<not> is_space (last (trim c))"
proof -
  let ?lw = "takeWhile is_space c"
  let ?c' = "dropWhile is_space c"
  let ?tw = "rev (takeWhile is_space (rev ?c'))"
  have t: "trim c = rev (dropWhile is_space (rev ?c'))" by (simp add: trim_def)
  have "?c' = rev (dropWhile is_space (rev ?c')) @ rev (takeWhile is_space (rev ?c'))"
    by (metis rev_append rev_rev_ident takeWhile_dropWhile_id)
  then have c': "?c' = trim c @ ?tw" unfolding t .
  have c: "c = ?lw @ trim c @ ?tw" using c' by (metis takeWhile_dropWhile_id)
  have 1: "list_all is_space ?lw" by (simp add: list_all_iff) (meson set_takeWhileD)
  have 2: "list_all is_space ?tw" by (simp add: list_all_iff) (meson set_takeWhileD)
  have ne: "?c' \<noteq> []" using assms by (auto simp: trim_def dest: set_dropWhileD)
  then have "\<not> is_space (hd ?c')" by (rule hd_dropWhile)
  moreover have "hd ?c' = hd (trim c)" using c' assms by (metis hd_append2)
  ultimately have 3: "\<not> is_space (hd (trim c))" by simp
  have "dropWhile is_space (rev ?c') \<noteq> []" using assms t by simp
  then have "\<not> is_space (hd (dropWhile is_space (rev ?c')))" by (rule hd_dropWhile)
  then have 4: "\<not> is_space (last (trim c))" using assms t by (simp add: last_rev)
  show ?thesis using c 1 2 3 4 by blast
qed

lemma trim_idem: "trim (trim s) = trim s"
proof (cases "trim s = []")
  case True then show ?thesis by (simp add: trim_def [of "[]"])
next
  case False
  from trim_decomp [OF False] have "\<not> is_space (hd (trim s))" "\<not> is_space (last (trim s))" by auto
  then show ?thesis using trim_core [of "[]" "[]" "trim s"] False by simp
qed

lemma trim_dropWhile: "trim (dropWhile is_space r) = trim r"
  by (simp add: trim_def dropWhile_idem)

lemma trim_all_space: "list_all is_space w \<Longrightarrow> trim w = []"
  by (auto simp: trim_def list_all_iff dest: set_dropWhileD)

lemma parsePrefixedSkillName_shape:
  assumes c: "list_all not_rparen c" "trim c \<noteq> []"
    and t: "(\<exists>ds. t = CHR ''^'' # ds \<and> ds \<noteq> [] \<and> list_all is_digit ds \<and> n = parseInt10 ds)
            \<or> (t = [] \<and> n = 0 \<and> \<not> has_weight_suffix c)"
    and r: "list_all is_dot (dropWhile is_space r)"
  shows "parsePrefixedSkillName (CHR ''('' # c @ t @ CHR '')'' # r)
         = Some \<lparr> className = trim c, weight = n, skillName = trim r \<rparr>"
proof -
  from trim_decomp [OF c(2)] obtain lw tw where
    d: "c = lw @ trim c @ tw" "list_all is_space lw" "list_all is_space tw"
       "\<not> is_space (hd (trim c))" "\<not> is_space (last (trim c))" by blast
  have np: "list_all not_rparen (trim c)" using c(1) d(1) by (metis list_all_append)
  define w where "w = (if t = [] then None else Some (tl t))"
  have t': "(\<exists>ds. t = CHR ''^'' # ds \<and> ds \<noteq> [] \<and> list_all is_digit ds \<and> w = Some ds)
            \<or> (t = [] \<and> w = None \<and> \<not> has_weight_suffix (lw @ trim c @ tw))"
    using t d(1) unfolding w_def by auto
  have m: "first (REGEX_PREFIXED_SKILL (CHR ''('' # lw @ trim c @ tw @ t @ CHR '')'' # r))
         = Some (trim c, w, dropWhile is_space r)"
    by (rule REGEX_PREFIXED_SKILL_match [OF d(2) c(2) d(4) d(5) np d(3) t' r])
  have e: "CHR ''('' # c @ t @ CHR '')'' # r = CHR ''('' # lw @ trim c @ tw @ t @ CHR '')'' # r"
    using d(1) by (metis append.assoc)
  have n: "(case w of None \<Rightarrow> 0 | Some ds \<Rightarrow> parseInt10 ds) = n"
    using t unfolding w_def by auto
  show ?thesis
    unfolding parsePrefixedSkillName_def e m
    by (simp add: n trim_idem trim_dropWhile)
qed

lemma parsePrefixedSkillName_blank:
  assumes "w \<noteq> []" "list_all is_space w" "list_all is_dot (dropWhile is_space r)"
  shows "parsePrefixedSkillName (CHR ''('' # w @ CHR '')'' # r)
         = Some \<lparr> className = [], weight = 0, skillName = trim r \<rparr>"
proof -
  have "is_space (last w)" using assms(1,2) by (simp add: all_space_last)
  then have "trim [last w] = []" by (simp add: trim_def)
  then show ?thesis
    using REGEX_PREFIXED_SKILL_blank [OF assms]
    by (simp add: parsePrefixedSkillName_def trim_dropWhile)
qed

lemma parsePrefixedSkillName_empty_class: "parsePrefixedSkillName (CHR ''('' # CHR '')'' # r) = None"
  by (simp add: parsePrefixedSkillName_def REGEX_PREFIXED_SKILL_def first_def is_space_def not_rparen_def)

lemma ci_eq_cases:
  assumes "ci_eq p x" "97 \<le> (of_char p :: nat)" "(of_char p :: nat) \<le> 122"
  shows "x = p \<or> ((of_char x :: nat) + 32 = of_char p)"
proof (cases "97 \<le> (of_char x :: nat) \<and> (of_char x :: nat) \<le> 122")
  case True
  then have "char_of ((of_char x :: nat) - 32) = (char_of ((of_char p :: nat) - 32) :: char)"
    using assms by (simp add: ci_eq_def ascii_upper_def)
  then have "((of_char x :: nat) - 32) mod 256 = ((of_char p :: nat) - 32) mod 256"
    by (simp add: char_of_eq_iff take_bit_eq_mod)
  moreover have "(a - 32) mod 256 = a - 32" if "a \<le> 122" for a :: nat
    using that by simp
  ultimately have "(of_char x :: nat) - 32 = of_char p - 32" using True assms(3) by metis
  then have "(of_char x :: nat) = of_char p" using True assms(2) by linarith
  then show ?thesis by simp
next
  case False
  then have "x = char_of ((of_char p :: nat) - 32)"
    using assms by (auto simp: ci_eq_def ascii_upper_def)
  then have "(of_char x :: nat) = ((of_char p :: nat) - 32) mod 256" by simp
  then show ?thesis using assms(2,3) by simp
qed

lemma ci_eq_letter:
  assumes "ci_eq p x" "97 \<le> (of_char p :: nat)" "(of_char p :: nat) \<le> 122"
  shows "toLowerCase_char x = p" "\<not> is_space x" "not_rparen x" "\<not> is_digit x" "x \<noteq> CHR ''^''"
proof -
  from ci_eq_cases [OF assms] have c: "x = p \<or> ((of_char x :: nat) + 32 = of_char p)" .
  then have rng: "(97 \<le> (of_char x :: nat) \<and> (of_char x :: nat) \<le> 122) \<or> (65 \<le> (of_char x :: nat) \<and> (of_char x :: nat) \<le> 90)"
    using assms(2,3) by auto
  show "toLowerCase_char x = p"
  proof (cases "x = p")
    case True then show ?thesis using assms(2,3) by (simp add: toLowerCase_char_def)
  next
    case False
    then have e: "(of_char x :: nat) + 32 = of_char p" using c by simp
    then have "65 \<le> (of_char x :: nat) \<and> (of_char x :: nat) \<le> 90" using assms(2,3) by simp
    then have "toLowerCase_char x = char_of ((of_char x :: nat) + 32)" by (simp add: toLowerCase_char_def)
    then show ?thesis using e by simp
  qed
  show "\<not> is_space x" using rng by (auto simp: is_space_def)
  show "not_rparen x" using rng by (auto simp: not_rparen_def)
  show "\<not> is_digit x" using rng by (auto simp: is_digit_def)
  show "x \<noteq> CHR ''^''" using rng by auto
qed


lemma ci_word:
  assumes "list_all2 ci_eq p m" "list_all (\<lambda>c. 97 \<le> (of_char c :: nat) \<and> (of_char c :: nat) \<le> 122) p"
  shows "toLowerCase m = p \<and> list_all (\<lambda>x. \<not> is_space x) m \<and> list_all not_rparen m
         \<and> list_all (\<lambda>x. \<not> is_digit x) m"
  using assms
proof (induction p m rule: list_all2_induct)
  case Nil then show ?case by (simp add: toLowerCase_def)
next
  case (Cons p ps x xs)
  then have "ci_eq p x" "97 \<le> (of_char p :: nat)" "(of_char p :: nat) \<le> 122" by simp_all
  from ci_eq_letter [OF this] Cons show ?case by (simp add: toLowerCase_def)
qed

lemma customclass_lower:
  "list_all (\<lambda>c. 97 \<le> (of_char c :: nat) \<and> (of_char c :: nat) \<le> 122) ''customclass''"
  by simp

lemma marker_props:
  assumes "list_all2 ci_eq ''customclass'' m"
  shows "toLowerCase m = ''customclass''" "m \<noteq> []" "\<not> is_space (hd m)" "\<not> is_space (last m)"
    "list_all not_rparen m" "\<not> is_digit (last m)" "trim m = m"
proof -
  from ci_word [OF assms customclass_lower]
  have a: "toLowerCase m = ''customclass''" "list_all (\<lambda>x. \<not> is_space x) m" "list_all not_rparen m"
    "list_all (\<lambda>x. \<not> is_digit x) m" by simp_all
  show "toLowerCase m = ''customclass''" "list_all not_rparen m" by (rule a)+
  show ne: "m \<noteq> []" using assms by auto
  then have "hd m \<in> set m" "last m \<in> set m" by simp_all
  then show sp: "\<not> is_space (hd m)" "\<not> is_space (last m)" and "\<not> is_digit (last m)"
    using a(2,4) by (auto simp: list_all_iff)
  show "trim m = m" using trim_core [of "[]" "[]" m] ne sp by simp
qed

lemma no_weight_suffix: "c = [] \<or> \<not> is_digit (last c) \<Longrightarrow> \<not> has_weight_suffix c"
  by (cases c rule: rev_cases) (auto simp: has_weight_suffix_def)

lemma rx_lit_rparen: "rx_lit '')'' (CHR '')'' # s) = [s]"
  by simp

lemma REGEX_NAMING_ITEM_match:
  assumes w1: "list_all is_space w1" and m: "list_all2 ci_eq ''customclass'' m"
    and w2: "list_all is_space w2"
    and t: "dropWhile is_space t \<noteq> []" "list_all is_dot (dropWhile is_space t)"
  shows "first (REGEX_NAMING_ITEM (CHR ''('' # w1 @ m @ w2 @ CHR '')'' # t)) = Some (dropWhile is_space t)"
proof -
  let ?r1 = "m @ w2 @ CHR '')'' # t"
  note mp = marker_props [OF m]
  have t1: "takeWhile is_space (w1 @ ?r1) = w1"
    using w1 mp(2,3) by (cases m) (simp_all add: takeWhile_all_append)
  have d1: "dropWhile is_space (w1 @ ?r1) = ?r1"
    using w1 mp(2,3) by (cases m) (simp_all add: dropWhile_all_append)
  have t2: "takeWhile is_space (w2 @ CHR '')'' # t) = w2"
    using w2 by (simp add: takeWhile_all_append is_space_def)
  have d2: "dropWhile is_space (w2 @ CHR '')'' # t) = CHR '')'' # t"
    using w2 by (simp add: dropWhile_all_append is_space_def)
  have t3: "takeWhile is_dot (dropWhile is_space t) = dropWhile is_space t"
    using t(2) by (simp add: list_all_iff)
  have d3: "dropWhile is_dot (dropWhile is_space t) = []"
    using t(2) by (simp add: list_all_iff)
  show ?thesis
    unfolding REGEX_NAMING_ITEM_def
    apply (simp only: rx_lit_lparen List.bind_simps append_Nil2)
    apply (rule first_bind_rx_star_greedy)
    apply (simp only: t1 d1 prod.case rx_lit_ci_append [OF m] List.bind_simps append_Nil2)
    apply (rule first_bind_rx_star_greedy)
    apply (simp only: t2 d2 prod.case rx_lit_rparen List.bind_simps append_Nil2)
    apply (rule first_bind_rx_star_greedy)
    apply (simp only: prod.case)
    apply (rule first_bind_rx_plus_greedy)
     apply (simp only: t3)
     apply (rule t(1))
    apply (simp add: t3 d3 rx_end_def first_def)
    done
qed

lemma REGEX_NAMING_ITEM_shape:
  assumes "l \<in> set (REGEX_NAMING_ITEM s)"
  shows "\<exists>w1 m w2 w3. s = CHR ''('' # w1 @ m @ w2 @ CHR '')'' # w3 @ l \<and> list_all is_space w1
     \<and> list_all2 ci_eq ''customclass'' m \<and> list_all is_space w2 \<and> list_all is_space w3
     \<and> l \<noteq> [] \<and> list_all is_dot l"
proof -
  from assms obtain r0 w1 r1 r2 w2 r3 r4 w3 r5 r6 where
    a: "r0 \<in> set (rx_lit ''('' s)" and b: "(w1, r1) \<in> set (rx_star is_space r0)"
    and c: "r2 \<in> set (rx_lit_ci ''customclass'' r1)" and d: "(w2, r3) \<in> set (rx_star is_space r2)"
    and e: "r4 \<in> set (rx_lit '')'' r3)" and f: "(w3, r5) \<in> set (rx_star is_space r4)"
    and g: "(l, r6) \<in> set (rx_plus is_dot r5)" and h: "r6 = []"
    by (auto simp: REGEX_NAMING_ITEM_def set_list_bind rx_end_def split: if_splits)
  from a have 1: "s = ''('' @ r0" by (rule rx_lit_split)
  from b have 2: "r0 = w1 @ r1" "list_all is_space w1" by (auto dest: rx_star_split)
  from c obtain m where 3: "r1 = m @ r2" "list_all2 ci_eq ''customclass'' m"
    by (auto dest: rx_lit_ci_split)
  from d have 4: "r2 = w2 @ r3" "list_all is_space w2" by (auto dest: rx_star_split)
  from e have 5: "r3 = '')'' @ r4" by (rule rx_lit_split)
  from f have 6: "r4 = w3 @ r5" "list_all is_space w3" by (auto dest: rx_star_split)
  from g h have 7: "r5 = l" "list_all is_dot l" "l \<noteq> []" by (auto dest: rx_plus_split)
  have "s = CHR ''('' # w1 @ m @ w2 @ CHR '')'' # w3 @ l"
    using 1 2(1) 3(1) 4(1) 5 6(1) 7(1) by simp
  then show ?thesis using 2(2) 3(2) 4(2) 6(2) 7(2,3) by blast
qed

lemma parseNamingItem_blank:
  assumes w1: "list_all is_space w1" and m: "list_all2 ci_eq ''customclass'' m"
    and w2: "list_all is_space w2" and w3: "list_all is_space w3"
  shows "\<not> truthy (parseNamingItem (CHR ''('' # w1 @ m @ w2 @ CHR '')'' # w3))"
proof (cases "REGEX_NAMING_ITEM (CHR ''('' # w1 @ m @ w2 @ CHR '')'' # w3)")
  case Nil
  then show ?thesis by (simp add: parseNamingItem_def first_def truthy_def)
next
  case (Cons l ls)
  then have "l \<in> set (REGEX_NAMING_ITEM (CHR ''('' # w1 @ m @ w2 @ CHR '')'' # w3))" by simp
  from REGEX_NAMING_ITEM_shape [OF this] obtain v1 n v2 v3 where
    e: "CHR ''('' # w1 @ m @ w2 @ CHR '')'' # w3 = CHR ''('' # v1 @ n @ v2 @ CHR '')'' # v3 @ l"
    and v: "list_all is_space v1" "list_all2 ci_eq ''customclass'' n" "list_all is_space v2"
    by blast
  have n1: "CHR '')'' \<notin> set (w1 @ m @ w2)"
    using space_no_rparen [OF w1] space_no_rparen [OF w2] not_rparen_no_rparen [OF marker_props(5) [OF m]]
    by simp
  have n2: "CHR '')'' \<notin> set (v1 @ n @ v2)"
    using space_no_rparen [OF v(1)] space_no_rparen [OF v(3)] not_rparen_no_rparen [OF marker_props(5) [OF v(2)]]
    by simp
  have eq: "(w1 @ m @ w2) @ CHR '')'' # w3 = (v1 @ n @ v2) @ CHR '')'' # (v3 @ l)"
    using e by simp
  from split_at_first [OF eq n1 n2] have "w3 = v3 @ l" by simp
  then have "list_all is_space l" using w3 by simp
  then have "trim l = []" by (rule trim_all_space)
  then show ?thesis using Cons by (simp add: parseNamingItem_def first_def truthy_def)
qed

lemma parsePrefixedSkillName_marker:
  assumes w1: "list_all is_space w1" and m: "list_all2 ci_eq ''customclass'' m"
    and w2: "list_all is_space w2" and r: "list_all is_dot (dropWhile is_space r)"
  shows "parsePrefixedSkillName (CHR ''('' # w1 @ m @ w2 @ CHR '')'' # r)
         = Some \<lparr> className = m, weight = 0, skillName = trim r \<rparr>"
proof -
  note mp = marker_props [OF m]
  let ?c = "w1 @ m @ w2"
  have tc: "trim ?c = m" by (rule trim_core [OF w1 w2 mp(2,3,4)])
  have "list_all not_rparen w" if "list_all is_space w" for w
    using that by (induction w) (auto simp: is_space_def not_rparen_def)
  then have np: "list_all not_rparen ?c"
    using w1 w2 mp(5) by simp
  have "\<not> is_digit (last ?c)"
  proof (cases "w2 = []")
    case True then show ?thesis using mp(2,6) by simp
  next
    case False
    then have "is_space (last w2)" using w2 by (simp add: all_space_last)
    then have "\<not> is_digit (last w2)" by (auto simp: is_space_def is_digit_def)
    then show ?thesis using False by simp
  qed
  then have nw: "\<not> has_weight_suffix ?c" by (simp add: no_weight_suffix)
  have "parsePrefixedSkillName (CHR ''('' # ?c @ [] @ CHR '')'' # r)
         = Some \<lparr> className = trim ?c, weight = 0, skillName = trim r \<rparr>"
    by (rule parsePrefixedSkillName_shape [OF np _ _ r]) (use tc mp(2) nw in simp_all)
  then show ?thesis using tc by simp
qed

section \<open>Lemmas: sorting and the comparators\<close>


lemma mset_insort_cmp: "mset (insort_cmp cmp x xs) = add_mset x (mset xs)"
  by (induction xs) auto

lemma mset_Array_sort: "mset (Array_sort cmp xs) = mset xs"
  by (induction xs) (simp_all add: Array_sort_def mset_insort_cmp)

lemma set_Array_sort: "set (Array_sort cmp xs) = set xs"
  by (metis mset_Array_sort set_mset_mset)

lemma length_Array_sort: "length (Array_sort cmp xs) = length xs"
  by (metis mset_Array_sort size_mset)

lemma Array_sort_Cons: "Array_sort cmp (x # xs) = insort_cmp cmp x (Array_sort cmp xs)"
  by (simp add: Array_sort_def)



lemma lex_compare_neg: "lex_compare b a = - lex_compare a b"
  by (induction a b rule: lex_compare.induct) auto

lemma lex_compare_range: "lex_compare a b = - 1 \<or> lex_compare a b = 0 \<or> lex_compare a b = 1"
  by (induction a b rule: lex_compare.induct) auto




lemma localeCompare_base_neg: "localeCompare_base b a = - localeCompare_base a b"
  unfolding localeCompare_base_def by (rule lex_compare_neg)

lemma localeCompare_base_refl: "localeCompare_base a a = 0"
  using localeCompare_base_neg [of a a] by simp















lemma or0_updateTime: "or0 (updateTime i) = updatedAt i"
  by (simp add: or0_def updatedAt_def)

lemma insort_cmp_not_Nil: "insort_cmp cmp x xs \<noteq> []"
  by (cases xs) auto

lemma last_insort_cmp:
  "xs \<noteq> [] \<Longrightarrow> last (insort_cmp cmp x xs) = (if \<exists>y\<in>set xs. cmp x y \<le> 0 then last xs else x)"
  by (induction xs) (auto simp: insort_cmp_not_Nil)

lemma last_Array_sort_updateTime:
  assumes "ns \<noteq> []"
  shows "\<exists>i<length ns. last (Array_sort cmp_updateTime ns) = ns ! i
     \<and> (\<forall>j<length ns. or0 (updateTime (ns ! j)) \<le> or0 (updateTime (ns ! i)))
     \<and> (\<forall>j<length ns. i < j \<longrightarrow> or0 (updateTime (ns ! j)) < or0 (updateTime (ns ! i)))"
  using assms
proof (induction ns)
  case Nil then show ?case by simp
next
  case (Cons x xs)
  let ?k = "\<lambda>r. or0 (updateTime r)"
  show ?case
  proof (cases "xs = []")
    case True
    then show ?thesis by (simp add: Array_sort_def)
  next
    case False
    from Cons.IH [OF False] obtain i where i: "i < length xs"
      "last (Array_sort cmp_updateTime xs) = xs ! i"
      "\<forall>j<length xs. ?k (xs ! j) \<le> ?k (xs ! i)"
      "\<forall>j<length xs. i < j \<longrightarrow> ?k (xs ! j) < ?k (xs ! i)" by blast
    have ne: "Array_sort cmp_updateTime xs \<noteq> []" using False by (metis length_Array_sort length_0_conv)
    have l: "last (Array_sort cmp_updateTime (x # xs)) =
        (if \<exists>y\<in>set xs. ?k x \<le> ?k y then xs ! i else x)"
      unfolding Array_sort_Cons last_insort_cmp [OF ne] set_Array_sort i(2)
      by (simp add: cmp_updateTime_def)
    show ?thesis
    proof (cases "\<exists>y\<in>set xs. ?k x \<le> ?k y")
      case True
      then obtain y where "y \<in> set xs" "?k x \<le> ?k y" by blast
      then have kx: "?k x \<le> ?k (xs ! i)" using i(3) by (metis in_set_conv_nth order_trans)
      have a: "\<forall>j<length (x # xs). ?k ((x # xs) ! j) \<le> ?k ((x # xs) ! Suc i)"
        using kx i(3) by (auto simp: nth_Cons split: nat.splits)
      have b: "\<forall>j<length (x # xs). Suc i < j \<longrightarrow> ?k ((x # xs) ! j) < ?k ((x # xs) ! Suc i)"
        using i(4) by (auto simp: nth_Cons split: nat.splits)
      have "last (Array_sort cmp_updateTime (x # xs)) = (x # xs) ! Suc i" using l True by simp
      then show ?thesis using a b i(1) by (intro exI [of _ "Suc i"]) simp
    next
      case False
      then have lt: "\<forall>j<length xs. ?k (xs ! j) < ?k x" by (metis nth_mem not_le)
      have a: "\<forall>j<length (x # xs). ?k ((x # xs) ! j) \<le> ?k ((x # xs) ! 0)"
        using lt by (auto simp: nth_Cons less_imp_le split: nat.splits)
      have b: "\<forall>j<length (x # xs). 0 < j \<longrightarrow> ?k ((x # xs) ! j) < ?k ((x # xs) ! 0)"
        using lt by (auto simp: nth_Cons split: nat.splits)
      have "last (Array_sort cmp_updateTime (x # xs)) = (x # xs) ! 0" using l False by simp
      then show ?thesis using a b by (intro exI [of _ 0]) simp
    qed
  qed
qed



section \<open>Lemmas: the loop of groupActorSkills\<close>

lemma group_loop_append:
  "group_loop acc (xs @ ys) = (case group_loop acc xs of Inl e \<Rightarrow> Inl e | Inr acc' \<Rightarrow> group_loop acc' ys)"
  by (induction xs arbitrary: acc) (simp_all split: sum.splits)

lemma group_loop_skip:
  assumes "\<And>acc. group_item acc item = Inr acc"
  shows "group_loop acc (xs @ item # ys) = group_loop acc (xs @ ys)"
  by (simp add: group_loop_append assms split: sum.splits)

lemma groupActorSkills_skip:
  assumes "\<And>acc. group_item acc item = Inr acc"
  shows "groupActorSkills (xs @ item # ys) = groupActorSkills (xs @ ys)"
  by (simp add: groupActorSkills_def group_loop_skip [OF assms])

lemma grouped_items_Nil: "grouped_items [] = []"
  by (simp add: grouped_items_def)

lemma grouped_items_Cons: "grouped_items ((k, ms) # g) = map fst ms @ grouped_items g"
  by (simp add: grouped_items_def)

lemma set_own_items:
  "set (grouped_items (set_own g k v)) \<subseteq> set (grouped_items g) \<union> fst ` set v"
proof (induction g)
  case Nil then show ?case by (simp add: grouped_items_Nil grouped_items_Cons)
next
  case (Cons a g)
  obtain k' v' where a: "a = (k', v')" by (cases a)
  show ?case using Cons unfolding a by (auto simp: grouped_items_Cons)
qed

lemma map_of_items: "map_of g k = Some ms \<Longrightarrow> fst ` set ms \<subseteq> set (grouped_items g)"
proof (induction g)
  case Nil then show ?case by simp
next
  case (Cons a g)
  obtain k' v' where a: "a = (k', v')" by (cases a)
  show ?case using Cons unfolding a by (auto simp: grouped_items_Cons split: if_splits)
qed

lemma push_member_items:
  assumes "push_member g k (x, p) = Inr g'"
  shows "set (grouped_items g') \<subseteq> insert x (set (grouped_items g))"
proof (cases "map_of g k")
  case None
  then have "g' = set_own g k [(x, p)]" using assms by (auto simp: push_member_def split: if_splits)
  then show ?thesis using set_own_items [of g k "[(x, p)]"] by auto
next
  case (Some ms)
  then have "g' = set_own g k (ms @ [(x, p)])" using assms by (simp add: push_member_def)
  then show ?thesis using set_own_items [of g k "ms @ [(x, p)]"] map_of_items [OF Some] by auto
qed

lemma group_item_items:
  assumes "group_item (g, occ) x = Inr (g', occ')"
  shows "set (grouped_items g') \<union> set occ' \<subseteq> insert x (set (grouped_items g) \<union> set occ)"
proof -
  consider (same) "g' = g" "occ' = occ" | (occ) "g' = g" "occ' = occ @ [x]"
    | (push) p where "push_member g (className p) (x, p) = Inr g'" "occ' = occ"
    using assms by (auto split: if_splits option.splits sum.splits)
  then show ?thesis
  proof cases
    case same then show ?thesis by auto
  next
    case occ then show ?thesis by auto
  next
    case push then show ?thesis using push_member_items [OF push(1)] by auto
  qed
qed

lemma group_loop_absent:
  assumes d: "\<And>acc. group_item acc item = Inr acc"
  shows "group_loop (g, occ) xs = Inr (g', occ') \<Longrightarrow> item \<notin> set (grouped_items g) \<union> set occ
         \<Longrightarrow> item \<notin> set (grouped_items g') \<union> set occ'"
proof (induction xs arbitrary: g occ)
  case Nil then show ?case by simp
next
  case (Cons x xs)
  then obtain g1 occ1 where s: "group_item (g, occ) x = Inr (g1, occ1)"
    and l: "group_loop (g1, occ1) xs = Inr (g', occ')"
    by (auto split: sum.splits)
  have "item \<notin> set (grouped_items g1) \<union> set occ1"
  proof (cases "x = item")
    case True
    then have "(g1, occ1) = (g, occ)" using s d [of "(g, occ)"] by simp
    then show ?thesis using Cons.prems(2) by simp
  next
    case False
    then show ?thesis using group_item_items [OF s] Cons.prems(2) by auto
  qed
  from Cons.IH [OF l this] show ?case .
qed

lemma grouped_items_sorted:
  "set (grouped_items (map (\<lambda>(k, ms). (k, Array_sort cmp ms)) g)) = set (grouped_items g)"
proof (induction g)
  case Nil then show ?case by (simp add: grouped_items_Nil)
next
  case (Cons a g)
  obtain k' v' where a: "a = (k', v')" by (cases a)
  show ?case using Cons unfolding a by (simp add: grouped_items_Cons set_Array_sort)
qed

lemma groupActorSkills_absent:
  assumes d: "\<And>acc. group_item acc item = Inr acc" and r: "groupActorSkills items = Inr res"
  shows "item \<notin> set (grouped_items (grouped res)) \<and> item \<notin> set (occupational res)"
proof -
  from r obtain g occ where l: "group_loop ([], []) items = Inr (g, occ)"
    and res: "res = \<lparr> grouped = map (\<lambda>(k, ms). (k, Array_sort cmp_member ms)) g,
              occupational = Array_sort cmp_name occ \<rparr>"
    by (auto simp: groupActorSkills_def split: sum.splits prod.splits)
  have "item \<notin> set (grouped_items g) \<union> set occ"
    by (rule group_loop_absent [OF d l]) (simp add: grouped_items_Nil)
  then show ?thesis by (simp add: res grouped_items_sorted set_Array_sort)
qed

lemma parsed_className_trimmed:
  "parsePrefixedSkillName s = Some p \<Longrightarrow> trim (className p) = className p"
  by (auto simp: parsePrefixedSkillName_def trim_idem split: option.splits)

lemma toLowerCase_NAMING_TOKEN: "toLowerCase NAMING_TOKEN = ''customclass''"
  by code_simp

lemma group_item_reserved:
  assumes "parsePrefixedSkillName (name item) = Some p"
    and "toLowerCase (className p) = toLowerCase NAMING_TOKEN"
  shows "group_item acc item = Inr acc"
  using assms parsed_className_trimmed [OF assms(1)] by (cases acc) simp

lemma REGEX_NAMING_ITEM_inner:
  assumes "l \<in> set (REGEX_NAMING_ITEM (CHR ''('' # u @ CHR '')'' # r))" and "CHR '')'' \<notin> set u"
  shows "\<exists>v1 n v2. u = v1 @ n @ v2 \<and> list_all is_space v1 \<and> list_all2 ci_eq ''customclass'' n
           \<and> list_all is_space v2"
proof -
  from REGEX_NAMING_ITEM_shape [OF assms(1)] obtain v1 n v2 v3 where
    e: "CHR ''('' # u @ CHR '')'' # r = CHR ''('' # v1 @ n @ v2 @ CHR '')'' # v3 @ l"
    and v: "list_all is_space v1" "list_all2 ci_eq ''customclass'' n" "list_all is_space v2"
    by blast
  have n2: "CHR '')'' \<notin> set (v1 @ n @ v2)"
    using space_no_rparen [OF v(1)] space_no_rparen [OF v(3)] not_rparen_no_rparen [OF marker_props(5) [OF v(2)]]
    by simp
  have eq: "u @ CHR '')'' # r = (v1 @ n @ v2) @ CHR '')'' # (v3 @ l)" using e by simp
  from split_at_first [OF eq assms(2) n2] have "u = v1 @ n @ v2" by simp
  then show ?thesis using v by blast
qed

lemma parseNamingItem_not_marker:
  assumes "CHR '')'' \<notin> set u" and "toLowerCase (trim u) \<noteq> ''customclass''"
  shows "parseNamingItem (CHR ''('' # u @ CHR '')'' # r) = None"
proof (cases "REGEX_NAMING_ITEM (CHR ''('' # u @ CHR '')'' # r)")
  case Nil then show ?thesis by (simp add: parseNamingItem_def first_def)
next
  case (Cons l ls)
  then have "l \<in> set (REGEX_NAMING_ITEM (CHR ''('' # u @ CHR '')'' # r))" by simp
  from REGEX_NAMING_ITEM_inner [OF this assms(1)] obtain v1 n v2 where
    u: "u = v1 @ n @ v2" and v: "list_all is_space v1" "list_all2 ci_eq ''customclass'' n"
    "list_all is_space v2" by blast
  note mp = marker_props [OF v(2)]
  have "trim u = n" unfolding u by (rule trim_core [OF v(1,3) mp(2,3,4)])
  then show ?thesis using mp(1) assms(2) by simp
qed

lemma trim_last_digit:
  assumes "ds \<noteq> []" "list_all is_digit ds"
  shows "trim (c @ CHR ''^'' # ds) \<noteq> [] \<and> is_digit (last (trim (c @ CHR ''^'' # ds)))"
proof -
  have l: "is_digit (last ds)" using assms by (metis last_in_set list_all_iff)
  then have ns: "\<not> is_space (last ds)" by (auto simp: is_digit_def is_space_def)
  obtain b x where bx: "ds = b @ [x]" using assms(1) by (cases ds rule: rev_cases) auto
  then have x: "\<not> is_space x" "is_digit x" using ns l by simp_all
  have "rev (dropWhile is_space (c @ CHR ''^'' # ds)) = x # rev (dropWhile is_space (c @ CHR ''^'' # b))"
    unfolding bx
  proof -
    have "dropWhile is_space ((c @ CHR ''^'' # b) @ [x]) = dropWhile is_space (c @ CHR ''^'' # b) @ [x]"
      by (rule dropWhile_append1 [of "CHR ''^''"]) (simp_all add: is_space_def)
    then show "rev (dropWhile is_space (c @ CHR ''^'' # b @ [x])) = x # rev (dropWhile is_space (c @ CHR ''^'' # b))"
      by simp
  qed
  then have "trim (c @ CHR ''^'' # ds) = rev (x # rev (dropWhile is_space (c @ CHR ''^'' # b)))"
    using x(1) by (simp add: trim_def)
  then show ?thesis using x(2) by simp
qed

lemma parseNamingItem_weighted:
  assumes "CHR '')'' \<notin> set c" "ds \<noteq> []" "list_all is_digit ds"
  shows "parseNamingItem (CHR ''('' # c @ CHR ''^'' # ds @ CHR '')'' # r) = None"
proof -
  let ?u = "c @ CHR ''^'' # ds"
  have np: "CHR '')'' \<notin> set ?u" using assms(1) digit_no_rparen [OF assms(3)] by simp
  from trim_last_digit [OF assms(2,3), of c]
  have t: "trim ?u \<noteq> []" "is_digit (last (trim ?u))" by simp_all
  have "toLowerCase (trim ?u) \<noteq> ''customclass''"
  proof
    assume a: "toLowerCase (trim ?u) = ''customclass''"
    have "last (toLowerCase (trim ?u)) = toLowerCase_char (last (trim ?u))"
      using t(1) by (simp add: toLowerCase_def last_map)
    moreover have "toLowerCase_char (last (trim ?u)) = last (trim ?u)"
      using t(2) by (simp add: toLowerCase_char_def is_digit_def)
    ultimately have "is_digit (last ''customclass'')" using a t(2) by simp
    then show False by (simp add: is_digit_def)
  qed
  from parseNamingItem_not_marker [OF np this, of r] show ?thesis by simp
qed

lemma all_space_dot_rest: "list_all is_space w \<Longrightarrow> list_all is_dot (dropWhile is_space w)"
  by (induction w) simp_all

lemma namingSkills_skip:
  "\<not> truthy (parseNamingItem (name item)) \<Longrightarrow> namingSkills (xs @ item # ys) = namingSkills (xs @ ys)"
  by (simp add: namingSkills_def)

lemma push_member_not_prototype:
  "k \<notin> set Object_prototype_keys \<Longrightarrow> \<exists>g'. push_member g k m = Inr g'"
  by (simp add: push_member_def split: option.splits)

section \<open>Lemmas: the icon directive\<close>





























text \<open>\<open>parseName\<close> is the case distinction that the loop body makes on the name of a skill
  item.\<close>

lemma group_item_parseName:
  assumes "is_skill item"
  shows "group_item (g, occ) item =
     (case parseName (name item) of
        NamingToken label \<Rightarrow> Inr (g, occ)
      | Plain \<Rightarrow> Inr (g, occ @ [item])
      | PrefixedSkill parsed \<Rightarrow>
          if toLowerCase (trim (className parsed)) = toLowerCase NAMING_TOKEN then Inr (g, occ)
          else (case push_member g (className parsed) (item, parsed) of
                  Inl e \<Rightarrow> Inl e
                | Inr g' \<Rightarrow> Inr (g', occ)))"
  using assms by (simp add: parseName_def split: option.splits)

section \<open>The properties\<close>

text \<open>
  C1, as first stated: every name made of an opening parenthesis, a class-name text without
  closing parenthesis, optionally \<open>^\<close> and decimal digits, a closing parenthesis and a
  skill-name text is a prefixed skill whose class name is the class-name text trimmed and whose
  weight is the value of the digits. It is not so for \<open>( ^5)Foo\<close>, whose class-name text is
  one space and whose digits are \<open>5\<close>: the whitespace goes to \<open>\s*\<close>, group 1 needs a character
  and takes \<open>^5\<close>, and the name is a prefixed skill with the class name \<open>^5\<close> and the weight 0,
  not with the empty class name and the weight 5.
\<close>

theorem parseName_blank_class_weight_counterexample:
  "list_all not_rparen '' '' \<and> list_all is_digit ''5''
   \<and> trim '' '' = [] \<and> parseInt10 ''5'' = 5
   \<and> parsePrefixedSkillName (''('' @ '' '' @ ''^'' @ ''5'' @ '')'' @ ''Foo'')
        = Some \<lparr> className = ''^5'', weight = 0, skillName = ''Foo'' \<rparr>
   \<and> parseName ''( ^5)Foo'' = PrefixedSkill \<lparr> className = ''^5'', weight = 0, skillName = ''Foo'' \<rparr>"
  by code_simp

text \<open>
  C1, amended: a name made of an opening parenthesis, a class-name text \<open>c\<close> without closing
  parenthesis and not blank, optionally \<open>^\<close> and decimal digits \<open>ds\<close> of a number below
  \<open>2 ^ 53\<close>, a closing parenthesis and a skill-name text \<open>r\<close> on a single line parses as a
  prefixed skill whose class name is \<open>c\<close> trimmed, whose weight is the number of the digits, or
  0 when there is no digit group (the class-name text then not ending with a digit group of
  its own), and whose skill name is \<open>r\<close> trimmed. With a digit group the name is never a naming
  item; without one it is a prefixed skill for \<open>parseName\<close> unless the class name is the
  reserved marker. \<open>(Barbarian^10)Natural Armor\<close> has the weight 10 and \<open>(Barbarian)Rage\<close>
  the weight 0.
\<close>

theorem parseName_prefixed:
  assumes "list_all not_rparen c" and "trim c \<noteq> []" and "list_all is_dot (dropWhile is_space r)"
  shows "(ds \<noteq> [] \<and> list_all is_digit ds \<and> parseInt10 ds < 2 ^ 53 \<longrightarrow>
            parsePrefixedSkillName (''('' @ c @ ''^'' @ ds @ '')'' @ r)
              = Some \<lparr> className = trim c, weight = parseInt10 ds, skillName = trim r \<rparr>
          \<and> parseName (''('' @ c @ ''^'' @ ds @ '')'' @ r)
              = PrefixedSkill \<lparr> className = trim c, weight = parseInt10 ds, skillName = trim r \<rparr>)
       \<and> (\<not> has_weight_suffix c \<longrightarrow>
            parsePrefixedSkillName (''('' @ c @ '')'' @ r)
              = Some \<lparr> className = trim c, weight = 0, skillName = trim r \<rparr>
          \<and> (toLowerCase (trim c) \<noteq> toLowerCase NAMING_TOKEN \<longrightarrow>
               parseName (''('' @ c @ '')'' @ r)
                 = PrefixedSkill \<lparr> className = trim c, weight = 0, skillName = trim r \<rparr>))
       \<and> parseName ''(Barbarian^10)Natural Armor''
            = PrefixedSkill \<lparr> className = ''Barbarian'', weight = 10, skillName = ''Natural Armor'' \<rparr>
       \<and> parseName ''(Barbarian)Rage''
            = PrefixedSkill \<lparr> className = ''Barbarian'', weight = 0, skillName = ''Rage'' \<rparr>"
proof -
  have np: "CHR '')'' \<notin> set c" by (rule not_rparen_no_rparen [OF assms(1)])
  have 1: "parsePrefixedSkillName (''('' @ c @ ''^'' @ ds @ '')'' @ r)
              = Some \<lparr> className = trim c, weight = parseInt10 ds, skillName = trim r \<rparr>
          \<and> parseName (''('' @ c @ ''^'' @ ds @ '')'' @ r)
              = PrefixedSkill \<lparr> className = trim c, weight = parseInt10 ds, skillName = trim r \<rparr>"
    if ds: "ds \<noteq> []" "list_all is_digit ds"
  proof -
    have p: "parsePrefixedSkillName (CHR ''('' # c @ (CHR ''^'' # ds) @ CHR '')'' # r)
              = Some \<lparr> className = trim c, weight = parseInt10 ds, skillName = trim r \<rparr>"
      by (rule parsePrefixedSkillName_shape [OF assms(1,2) _ assms(3)]) (use ds in simp)
    have n: "parseNamingItem (CHR ''('' # c @ CHR ''^'' # ds @ CHR '')'' # r) = None"
      by (rule parseNamingItem_weighted [OF np ds])
    show ?thesis using p n by (simp add: parseName_def truthy_def)
  qed
  have 2: "parsePrefixedSkillName (''('' @ c @ '')'' @ r)
              = Some \<lparr> className = trim c, weight = 0, skillName = trim r \<rparr>"
    if "\<not> has_weight_suffix c"
  proof -
    have "parsePrefixedSkillName (CHR ''('' # c @ [] @ CHR '')'' # r)
              = Some \<lparr> className = trim c, weight = 0, skillName = trim r \<rparr>"
      by (rule parsePrefixedSkillName_shape [OF assms(1,2) _ assms(3)]) (use that in simp)
    then show ?thesis by simp
  qed
  have 3: "parseName (''('' @ c @ '')'' @ r)
                 = PrefixedSkill \<lparr> className = trim c, weight = 0, skillName = trim r \<rparr>"
    if "\<not> has_weight_suffix c" "toLowerCase (trim c) \<noteq> toLowerCase NAMING_TOKEN"
  proof -
    have "parseNamingItem (CHR ''('' # c @ CHR '')'' # r) = None"
      by (rule parseNamingItem_not_marker [OF np]) (use that(2) in \<open>simp add: toLowerCase_NAMING_TOKEN\<close>)
    then show ?thesis using 2 [OF that(1)] by (simp add: parseName_def truthy_def)
  qed
  have 4: "parseName ''(Barbarian^10)Natural Armor''
            = PrefixedSkill \<lparr> className = ''Barbarian'', weight = 10, skillName = ''Natural Armor'' \<rparr>"
    by code_simp
  have 5: "parseName ''(Barbarian)Rage''
            = PrefixedSkill \<lparr> className = ''Barbarian'', weight = 0, skillName = ''Rage'' \<rparr>"
    by code_simp
  show ?thesis
    apply (intro conjI impI)
         apply (elim conjE, rule 1 [THEN conjunct1]; assumption)
        apply (elim conjE, rule 1 [THEN conjunct2]; assumption)
       apply (rule 2; assumption)
      apply (rule 3; assumption)
     apply (rule 4)
    apply (rule 5)
    done
qed

theorem parseName_prefixed_witness:
  "list_all not_rparen '' Blood Mage '' \<and> trim '' Blood Mage '' \<noteq> []
   \<and> list_all is_dot (dropWhile is_space ''  Crimson Bolt '')
   \<and> ''120'' \<noteq> [] \<and> list_all is_digit ''120'' \<and> parseInt10 ''120'' < 2 ^ 53
   \<and> \<not> has_weight_suffix '' Blood Mage ''
   \<and> toLowerCase (trim '' Blood Mage '') \<noteq> toLowerCase NAMING_TOKEN
   \<and> parseName ''( Blood Mage ^120)  Crimson Bolt ''
        = PrefixedSkill \<lparr> className = ''Blood Mage'', weight = 120, skillName = ''Crimson Bolt'' \<rparr>
   \<and> parseName ''( Blood Mage )  Crimson Bolt ''
        = PrefixedSkill \<lparr> className = ''Blood Mage'', weight = 0, skillName = ''Crimson Bolt'' \<rparr>"
proof -
  have a: "list_all not_rparen '' Blood Mage ''" by code_simp
  have b: "trim '' Blood Mage '' \<noteq> []" by code_simp
  have c: "list_all is_dot (dropWhile is_space ''  Crimson Bolt '')" by code_simp
  have pi: "parseInt10 ''120'' = 120" by code_simp
  have dg: "list_all is_digit ''120''" by code_simp
  have d: "''120'' \<noteq> [] \<and> list_all is_digit ''120'' \<and> parseInt10 ''120'' < 2 ^ 53"
    unfolding pi using dg by simp
  have e: "\<not> has_weight_suffix '' Blood Mage ''" by code_simp
  have f: "toLowerCase (trim '' Blood Mage '') \<noteq> toLowerCase NAMING_TOKEN" by code_simp
  have tc: "trim '' Blood Mage '' = ''Blood Mage''" by code_simp
  have tr: "trim ''  Crimson Bolt '' = ''Crimson Bolt''" by code_simp
  note t = parseName_prefixed [OF a b c, of "''120''"]
  from t [THEN conjunct1, rule_format, OF d, THEN conjunct2]
  have g: "parseName ''( Blood Mage ^120)  Crimson Bolt ''
        = PrefixedSkill \<lparr> className = ''Blood Mage'', weight = 120, skillName = ''Crimson Bolt'' \<rparr>"
    unfolding tc tr pi by simp
  from t [THEN conjunct2, THEN conjunct1, rule_format, OF e, THEN conjunct2, rule_format, OF f]
  have h: "parseName ''( Blood Mage )  Crimson Bolt ''
        = PrefixedSkill \<lparr> className = ''Blood Mage'', weight = 0, skillName = ''Crimson Bolt'' \<rparr>"
    unfolding tc tr by simp
  from a b c d e f g h show ?thesis by (intro conjI) simp_all
qed

text \<open>
  C2: the naming pattern is tried first. A name made of the reserved marker in any case in
  parentheses (spaces allowed around it) and a single-line, non-blank label text matches
  both expressions, and is a naming token whose label is the trimmed label text; so are
  \<open>(CUSTOMCLASS)Bard\<close> and \<open>(customclass) Bard\<close> with the label \<open>Bard\<close>. In general, a name
  that the naming expression matches with a non-blank group 1 is a naming token, whatever the
  other expression does with it.
\<close>

theorem parseName_naming_precedence:
  assumes "list_all is_space w1" and "list_all2 ci_eq ''customclass'' m" and "list_all is_space w2"
    and "trim t \<noteq> []" and "list_all is_dot (dropWhile is_space t)"
  shows "parseName (''('' @ w1 @ m @ w2 @ '')'' @ t) = NamingToken (trim t)
       \<and> parsePrefixedSkillName (''('' @ w1 @ m @ w2 @ '')'' @ t)
           = Some \<lparr> className = m, weight = 0, skillName = trim t \<rparr>
       \<and> (first (REGEX_NAMING_ITEM s) = Some g1 \<and> trim g1 \<noteq> [] \<longrightarrow> parseName s = NamingToken (trim g1))
       \<and> parseName ''(CUSTOMCLASS)Bard'' = NamingToken ''Bard''
       \<and> parseName ''(customclass) Bard'' = NamingToken ''Bard''"
proof -
  have 0: "parseName s = NamingToken (trim g1)"
    if "first (REGEX_NAMING_ITEM s) = Some g1 \<and> trim g1 \<noteq> []"
    using that by (simp add: parseName_def parseNamingItem_def truthy_def)
  have ne: "dropWhile is_space t \<noteq> []"
  proof
    assume "dropWhile is_space t = []"
    then have "trim t = []" by (simp only: trim_def rev.simps dropWhile.simps)
    then show False using assms(4) by simp
  qed
  have "first (REGEX_NAMING_ITEM (CHR ''('' # w1 @ m @ w2 @ CHR '')'' # t)) = Some (dropWhile is_space t)"
    by (rule REGEX_NAMING_ITEM_match [OF assms(1,2,3) ne assms(5)])
  then have n: "parseNamingItem (CHR ''('' # w1 @ m @ w2 @ CHR '')'' # t) = Some (trim t)"
    by (simp add: parseNamingItem_def trim_dropWhile)
  have 1: "parseName (''('' @ w1 @ m @ w2 @ '')'' @ t) = NamingToken (trim t)"
    using n assms(4) by (simp add: parseName_def truthy_def)
  have 2: "parsePrefixedSkillName (''('' @ w1 @ m @ w2 @ '')'' @ t)
           = Some \<lparr> className = m, weight = 0, skillName = trim t \<rparr>"
    using parsePrefixedSkillName_marker [OF assms(1,2,3,5)] by simp
  have 3: "parseName ''(CUSTOMCLASS)Bard'' = NamingToken ''Bard''" by code_simp
  have 4: "parseName ''(customclass) Bard'' = NamingToken ''Bard''" by code_simp
  show ?thesis
    apply (intro conjI impI)
        apply (rule 1)
       apply (rule 2)
      apply (rule 0; assumption)
     apply (rule 3)
    apply (rule 4)
    done
qed

theorem parseName_naming_precedence_witness:
  "list_all is_space '' '' \<and> list_all2 ci_eq ''customclass'' ''CustomClass'' \<and> list_all is_space []
   \<and> trim ''  Blood Mage'' \<noteq> [] \<and> list_all is_dot (dropWhile is_space ''  Blood Mage'')
   \<and> parseName ''( CustomClass)  Blood Mage'' = NamingToken ''Blood Mage''
   \<and> parsePrefixedSkillName ''( CustomClass)  Blood Mage''
        = Some \<lparr> className = ''CustomClass'', weight = 0, skillName = ''Blood Mage'' \<rparr>"
proof -
  have a: "list_all is_space '' ''" by code_simp
  have b: "list_all2 ci_eq ''customclass'' ''CustomClass''" by code_simp
  have c: "list_all is_space []" by simp
  have d: "trim ''  Blood Mage'' \<noteq> []" by code_simp
  have e: "list_all is_dot (dropWhile is_space ''  Blood Mage'')" by code_simp
  have tr: "trim ''  Blood Mage'' = ''Blood Mage''" by code_simp
  note t = parseName_naming_precedence [OF a b c d e]
  from t [THEN conjunct1] have f: "parseName ''( CustomClass)  Blood Mage'' = NamingToken ''Blood Mage''"
    unfolding tr by simp
  from t [THEN conjunct2, THEN conjunct1]
  have g: "parsePrefixedSkillName ''( CustomClass)  Blood Mage''
        = Some \<lparr> className = ''CustomClass'', weight = 0, skillName = ''Blood Mage'' \<rparr>"
    unfolding tr by simp
  from a b c d e f g show ?thesis by (intro conjI)
qed





text \<open>
  C5: an item whose name parses as a prefixed skill with a class name equal, with case
  folded, to the reserved marker contributes nothing: the result is the one for the items
  without it, and the item is in no group and not among the occupational skills; so for the
  item named \<open>(CustomClass^5)Foo\<close>.
\<close>

theorem groupActorSkills_reserved_class:
  assumes "parsePrefixedSkillName (name item) = Some p"
    and "toLowerCase (className p) = toLowerCase NAMING_TOKEN"
  shows "groupActorSkills (xs @ item # ys) = groupActorSkills (xs @ ys)
       \<and> (groupActorSkills items = Inr res \<longrightarrow>
            item \<notin> set (grouped_items (grouped res)) \<and> item \<notin> set (occupational res))
       \<and> groupActorSkills [skill ''a1'' ''(CustomClass^5)Foo''] = Inr \<lparr> grouped = [], occupational = [] \<rparr>"
proof -
  have d: "group_item acc item = Inr acc" for acc by (rule group_item_reserved [OF assms])
  have 1: "groupActorSkills (xs @ item # ys) = groupActorSkills (xs @ ys)"
    by (rule groupActorSkills_skip [OF d])
  have 2: "item \<notin> set (grouped_items (grouped res)) \<and> item \<notin> set (occupational res)"
    if "groupActorSkills items = Inr res"
    by (rule groupActorSkills_absent [OF d that])
  have 3: "groupActorSkills [skill ''a1'' ''(CustomClass^5)Foo''] = Inr \<lparr> grouped = [], occupational = [] \<rparr>"
    by code_simp
  show ?thesis
    apply (intro conjI impI)
      apply (rule 1)
     apply (rule 2 [THEN conjunct1]; assumption)
    apply (rule 2 [THEN conjunct2]; assumption)
    apply (rule 3)
    done
qed

theorem groupActorSkills_reserved_class_witness:
  "parsePrefixedSkillName (name (skill ''2'' ''(CustomClass^5)Foo''))
     = Some \<lparr> className = ''CustomClass'', weight = 5, skillName = ''Foo'' \<rparr>
   \<and> toLowerCase (className \<lparr> className = ''CustomClass'', weight = 5, skillName = ''Foo'' \<rparr>)
       = toLowerCase NAMING_TOKEN
   \<and> groupActorSkills [skill ''1'' ''Climbing'', skill ''2'' ''(CustomClass^5)Foo'', skill ''3'' ''(Bard)Lore'']
       = Inr \<lparr> grouped = [(''Bard'', [(skill ''3'' ''(Bard)Lore'',
                   \<lparr> className = ''Bard'', weight = 0, skillName = ''Lore'' \<rparr>)])],
                occupational = [skill ''1'' ''Climbing''] \<rparr>
   \<and> skill ''2'' ''(CustomClass^5)Foo''
       \<notin> set (grouped_items (grouped \<lparr> grouped = [(''Bard'', [(skill ''3'' ''(Bard)Lore'',
                   \<lparr> className = ''Bard'', weight = 0, skillName = ''Lore'' \<rparr>)])],
                occupational = [skill ''1'' ''Climbing''] \<rparr>))
   \<and> skill ''2'' ''(CustomClass^5)Foo''
       \<notin> set (occupational \<lparr> grouped = [(''Bard'', [(skill ''3'' ''(Bard)Lore'',
                   \<lparr> className = ''Bard'', weight = 0, skillName = ''Lore'' \<rparr>)])],
                occupational = [skill ''1'' ''Climbing''] \<rparr>)"
proof -
  let ?item = "skill ''2'' ''(CustomClass^5)Foo''"
  let ?p = "\<lparr> className = ''CustomClass'', weight = 5, skillName = ''Foo'' \<rparr>"
  let ?res = "\<lparr> grouped = [(''Bard'', [(skill ''3'' ''(Bard)Lore'',
                   \<lparr> className = ''Bard'', weight = 0, skillName = ''Lore'' \<rparr>)])],
                occupational = [skill ''1'' ''Climbing''] \<rparr>"
  have a: "parsePrefixedSkillName (name ?item) = Some ?p" by code_simp
  have b: "toLowerCase (className ?p) = toLowerCase NAMING_TOKEN" by code_simp
  have e: "groupActorSkills ([skill ''1'' ''Climbing''] @ [skill ''3'' ''(Bard)Lore'']) = Inr ?res"
    by code_simp
  note t = groupActorSkills_reserved_class [OF a b, of "[skill ''1'' ''Climbing'']" "[skill ''3'' ''(Bard)Lore'']"
      "[skill ''1'' ''Climbing'', ?item, skill ''3'' ''(Bard)Lore'']" ?res]
  from t [THEN conjunct1] e
  have c: "groupActorSkills [skill ''1'' ''Climbing'', ?item, skill ''3'' ''(Bard)Lore''] = Inr ?res"
    by simp
  from t [THEN conjunct2, THEN conjunct1, rule_format, OF c]
  have d: "?item \<notin> set (grouped_items (grouped ?res))" "?item \<notin> set (occupational ?res)"
    by (rule conjunct1, rule conjunct2)
  from a b c d show ?thesis by (intro conjI)
qed

text \<open>
  C6: classification is total and never throws. It does throw: a skill item named
  \<open>(constructor)Foo\<close> parses to the class name \<open>constructor\<close>; \<open>grouped["constructor"]\<close>
  is the inherited \<open>Object.prototype.constructor\<close>, which is truthy, so no array is
  created for the key, and the call of \<open>push\<close> on it raises a \<open>TypeError\<close>.
\<close>

theorem groupActorSkills_constructor_throws:
  "groupActorSkills
     [\<lparr> item_id = ''a1'', item_type = Some ''skill'', name = ''(constructor)Foo'',
         description = None, updateTime = None \<rparr>] = Inl TypeError"
  by code_simp

text \<open>
  C7: when the actor has naming skills, \<open>getCustomClassLabel\<close> returns the (non-empty)
  label of one of them: the one whose update time (0 for a record without one) is the
  greatest, and among several with the greatest time the last one in the order of the items.
\<close>

theorem getCustomClassLabel_latest:
  assumes "namingSkills items = ns" and "ns \<noteq> []"
  shows "\<exists>i<length ns.
           (\<forall>j<length ns. updatedAt (ns ! j) \<le> updatedAt (ns ! i))
         \<and> (\<forall>j<length ns. i < j \<longrightarrow> updatedAt (ns ! j) < updatedAt (ns ! i))
         \<and> getCustomClassLabel items = parseNamingItem (name (ns ! i))
         \<and> truthy (getCustomClassLabel items)"
proof -
  from last_Array_sort_updateTime [OF assms(2)] obtain i where i: "i < length ns"
    "last (Array_sort cmp_updateTime ns) = ns ! i"
    "\<forall>j<length ns. updatedAt (ns ! j) \<le> updatedAt (ns ! i)"
    "\<forall>j<length ns. i < j \<longrightarrow> updatedAt (ns ! j) < updatedAt (ns ! i)"
    unfolding or0_updateTime by blast
  have l: "getCustomClassLabel items = parseNamingItem (name (ns ! i))"
    using assms i(2) by (simp add: getCustomClassLabel_def)
  have "ns ! i \<in> set (namingSkills items)" using i(1) assms(1) by simp
  then have "truthy (parseNamingItem (name (ns ! i)))" by (simp add: namingSkills_def)
  then have "truthy (getCustomClassLabel items)" using l by simp
  with i l show ?thesis by (intro exI [of _ i]) simp
qed

theorem getCustomClassLabel_latest_witness:
  "namingSkills
     [(skill ''1'' ''(CUSTOMCLASS)Old'')\<lparr> updateTime := Some 5 \<rparr>,
      (skill ''2'' ''(customclass) New'')\<lparr> updateTime := Some 9 \<rparr>,
      skill ''3'' ''Climbing'',
      (skill ''4'' ''(CustomClass)Tie'')\<lparr> updateTime := Some 9 \<rparr>,
      skill ''5'' ''(CUSTOMCLASS)Unset'']
   = [(skill ''1'' ''(CUSTOMCLASS)Old'')\<lparr> updateTime := Some 5 \<rparr>,
      (skill ''2'' ''(customclass) New'')\<lparr> updateTime := Some 9 \<rparr>,
      (skill ''4'' ''(CustomClass)Tie'')\<lparr> updateTime := Some 9 \<rparr>,
      skill ''5'' ''(CUSTOMCLASS)Unset'']
   \<and> getCustomClassLabel
     [(skill ''1'' ''(CUSTOMCLASS)Old'')\<lparr> updateTime := Some 5 \<rparr>,
      (skill ''2'' ''(customclass) New'')\<lparr> updateTime := Some 9 \<rparr>,
      skill ''3'' ''Climbing'',
      (skill ''4'' ''(CustomClass)Tie'')\<lparr> updateTime := Some 9 \<rparr>,
      skill ''5'' ''(CUSTOMCLASS)Unset''] = Some ''Tie''"
proof -
  let ?a = "(skill ''1'' ''(CUSTOMCLASS)Old'')\<lparr> updateTime := Some 5 \<rparr>"
  let ?b = "(skill ''2'' ''(customclass) New'')\<lparr> updateTime := Some 9 \<rparr>"
  let ?c = "(skill ''4'' ''(CustomClass)Tie'')\<lparr> updateTime := Some 9 \<rparr>"
  let ?d = "skill ''5'' ''(CUSTOMCLASS)Unset''"
  let ?items = "[?a, ?b, skill ''3'' ''Climbing'', ?c, ?d]"
  let ?ns = "[?a, ?b, ?c, ?d]"
  have n: "namingSkills ?items = ?ns" by code_simp
  have ne: "?ns \<noteq> []" by (rule list.distinct(2))
  have u: "updatedAt ?a = 5" "updatedAt ?b = 9" "updatedAt ?c = 9" "updatedAt ?d = 0"
    by (simp_all add: updatedAt_def)
  have p: "parseNamingItem (name ?c) = Some ''Tie''" by code_simp
  from getCustomClassLabel_latest [OF n ne] obtain i where i: "i < length ?ns"
    and mx: "\<forall>j<length ?ns. updatedAt (?ns ! j) \<le> updatedAt (?ns ! i)"
    and lt: "\<forall>j<length ?ns. i < j \<longrightarrow> updatedAt (?ns ! j) < updatedAt (?ns ! i)"
    and l: "getCustomClassLabel ?items = parseNamingItem (name (?ns ! i))"
    by blast
  from i have "i = 0 \<or> i = 1 \<or> i = 2 \<or> i = 3" by auto
  then have "i = 2"
  proof (elim disjE)
    assume "i = 0"
    with mx [rule_format, of 1] u show ?thesis by simp
  next
    assume "i = 1"
    with lt [rule_format, of 2] u show ?thesis by simp
  next
    assume "i = 2" then show ?thesis .
  next
    assume "i = 3"
    with mx [rule_format, of 1] u show ?thesis by simp
  qed
  with l p have "getCustomClassLabel ?items = Some ''Tie''" by simp
  with n show ?thesis by (intro conjI)
qed




text \<open>
  C9, as first stated: a name whose class-name text trims to the empty string, such as
  \<open>()Foo\<close>, is a prefixed skill with the empty class name. It is not: group 1 of the
  expression needs one character, and \<open>()Foo\<close> is a plain name.
\<close>

theorem parseName_empty_class_counterexample:
  "parsePrefixedSkillName ''()Foo'' = None \<and> parseName ''()Foo'' = Plain"
  by code_simp

text \<open>
  C9, amended: a name whose class-name text is not empty and consists of whitespace only,
  followed by a single-line skill-name text, is a prefixed skill with the empty class name
  and weight 0; a name with nothing between the parentheses is plain; and the loop body of
  \<open>groupActorSkills\<close> returns normally on an item with either name.
\<close>

theorem parseName_blank_class:
  assumes "w \<noteq> []" and "list_all is_space w" and "list_all is_dot (dropWhile is_space r)"
  shows "parseName (''('' @ w @ '')'' @ r) = PrefixedSkill \<lparr> className = [], weight = 0, skillName = trim r \<rparr>
       \<and> parseName (''()'' @ r) = Plain
       \<and> (name item = ''('' @ w @ '')'' @ r \<or> name item = ''()'' @ r \<longrightarrow>
            (\<exists>acc'. group_item acc item = Inr acc'))
       \<and> groupActorSkills [skill ''a1'' ''( )Foo'', skill ''a2'' ''()Foo'']
           = Inr \<lparr> grouped = [([], [(skill ''a1'' ''( )Foo'',
                                       \<lparr> className = [], weight = 0, skillName = ''Foo'' \<rparr>)])],
                    occupational = [skill ''a2'' ''()Foo''] \<rparr>"
proof -
  have npw: "CHR '')'' \<notin> set w" by (rule space_no_rparen [OF assms(2)])
  have tw: "trim w = []" by (rule trim_all_space [OF assms(2)])
  have n1: "parseNamingItem (CHR ''('' # w @ CHR '')'' # r) = None"
    by (rule parseNamingItem_not_marker [OF npw]) (simp add: tw toLowerCase_def)
  have n2: "parseNamingItem (CHR ''('' # [] @ CHR '')'' # r) = None"
    by (rule parseNamingItem_not_marker) (simp_all add: trim_def toLowerCase_def)
  have p1: "parsePrefixedSkillName (CHR ''('' # w @ CHR '')'' # r)
      = Some \<lparr> className = [], weight = 0, skillName = trim r \<rparr>"
    by (rule parsePrefixedSkillName_blank [OF assms])
  have p2: "parsePrefixedSkillName (CHR ''('' # CHR '')'' # r) = None"
    by (rule parsePrefixedSkillName_empty_class)
  have 1: "parseName (''('' @ w @ '')'' @ r) = PrefixedSkill \<lparr> className = [], weight = 0, skillName = trim r \<rparr>"
    using n1 p1 by (simp add: parseName_def truthy_def)
  have 2: "parseName (''()'' @ r) = Plain"
    using n2 p2 by (simp add: parseName_def truthy_def)
  have 3: "\<exists>acc'. group_item acc item = Inr acc'"
    if "name item = ''('' @ w @ '')'' @ r \<or> name item = ''()'' @ r"
  proof -
    obtain g occ where acc: "acc = (g, occ)" by (cases acc)
    from that show ?thesis
    proof
      assume a: "name item = ''('' @ w @ '')'' @ r"
      have k: "[] \<notin> set Object_prototype_keys" by (simp add: Object_prototype_keys_def)
      from push_member_not_prototype [OF k]
      obtain g' where "push_member g [] (item, \<lparr> className = [], weight = 0, skillName = trim r \<rparr>) = Inr g'"
        by blast
      then show ?thesis
        unfolding acc using a n1 p1
        by (simp add: truthy_def trim_def toLowerCase_def toLowerCase_NAMING_TOKEN [unfolded toLowerCase_def])
    next
      assume a: "name item = ''()'' @ r"
      show ?thesis unfolding acc using a n2 p2 by (simp add: truthy_def)
    qed
  qed
  have 4: "groupActorSkills [skill ''a1'' ''( )Foo'', skill ''a2'' ''()Foo'']
           = Inr \<lparr> grouped = [([], [(skill ''a1'' ''( )Foo'',
                                       \<lparr> className = [], weight = 0, skillName = ''Foo'' \<rparr>)])],
                    occupational = [skill ''a2'' ''()Foo''] \<rparr>"
    by code_simp
  show ?thesis
    apply (intro conjI impI)
       apply (rule 1)
      apply (rule 2)
     apply (rule 3; assumption)
    apply (rule 4)
    done
qed

theorem parseName_blank_class_witness:
  "'' '' \<noteq> [] \<and> list_all is_space '' '' \<and> list_all is_dot (dropWhile is_space ''Foo'')
   \<and> parseName ''( )Foo'' = PrefixedSkill \<lparr> className = [], weight = 0, skillName = ''Foo'' \<rparr>
   \<and> parseName ''()Foo'' = Plain
   \<and> (\<exists>acc'. group_item ([], []) (skill ''a1'' ''( )Foo'') = Inr acc')"
proof -
  have a: "'' '' \<noteq> []" by simp
  have b: "list_all is_space '' ''" by code_simp
  have c: "list_all is_dot (dropWhile is_space ''Foo'')" by code_simp
  have tr: "trim ''Foo'' = ''Foo''" by code_simp
  note t = parseName_blank_class [OF a b c, of "skill ''a1'' ''( )Foo''" "([], [])"]
  have d: "parseName ''( )Foo'' = PrefixedSkill \<lparr> className = [], weight = 0, skillName = ''Foo'' \<rparr>"
    using t [THEN conjunct1] unfolding tr by simp
  have e: "parseName ''()Foo'' = Plain" using t [THEN conjunct2, THEN conjunct1] by simp
  have f: "\<exists>acc'. group_item ([], []) (skill ''a1'' ''( )Foo'') = Inr acc'"
    by (rule t [THEN conjunct2, THEN conjunct2, THEN conjunct1, rule_format]) simp
  from a b c d e f show ?thesis by (intro conjI)
qed

text \<open>
  C10: an item named by the reserved marker in parentheses followed by nothing or only
  whitespace is not a naming item: \<open>getCustomClassLabel\<close> and \<open>getCustomClassIcon\<close> give what
  they give without it. Its name parses as a prefixed skill whose class name is the marker,
  so \<open>groupActorSkills\<close> drops it: the result is the one without it, and the item is in no
  group and not among the occupational skills.
\<close>

theorem blank_naming_item_ignored:
  assumes "list_all is_space w1" and "list_all2 ci_eq ''customclass'' m" and "list_all is_space w2"
    and "list_all is_space w3" and "name item = ''('' @ w1 @ m @ w2 @ '')'' @ w3"
  shows "\<not> truthy (parseNamingItem (name item))
       \<and> parseName (name item) = PrefixedSkill \<lparr> className = m, weight = 0, skillName = [] \<rparr>
       \<and> toLowerCase m = toLowerCase NAMING_TOKEN
       \<and> getCustomClassLabel (xs @ item # ys) = getCustomClassLabel (xs @ ys)
       \<and> getCustomClassIcon (xs @ item # ys) = getCustomClassIcon (xs @ ys)
       \<and> groupActorSkills (xs @ item # ys) = groupActorSkills (xs @ ys)
       \<and> (groupActorSkills items = Inr res \<longrightarrow>
            item \<notin> set (grouped_items (grouped res)) \<and> item \<notin> set (occupational res))"
proof -
  have n: "name item = CHR ''('' # w1 @ m @ w2 @ CHR '')'' # w3" using assms(5) by simp
  have 1: "\<not> truthy (parseNamingItem (name item))"
    unfolding n by (rule parseNamingItem_blank [OF assms(1,2,3,4)])
  have p: "parsePrefixedSkillName (name item) = Some \<lparr> className = m, weight = 0, skillName = [] \<rparr>"
    unfolding n
    using parsePrefixedSkillName_marker [OF assms(1,2,3) all_space_dot_rest [OF assms(4)]]
      trim_all_space [OF assms(4)] by simp
  have 2: "parseName (name item) = PrefixedSkill \<lparr> className = m, weight = 0, skillName = [] \<rparr>"
    using 1 p by (simp add: parseName_def)
  have 3: "toLowerCase m = toLowerCase NAMING_TOKEN"
    using marker_props(1) [OF assms(2)] by (simp add: toLowerCase_NAMING_TOKEN)
  have ns: "namingSkills (xs @ item # ys) = namingSkills (xs @ ys)"
    by (rule namingSkills_skip [OF 1])
  have 4: "getCustomClassLabel (xs @ item # ys) = getCustomClassLabel (xs @ ys)"
    by (simp only: getCustomClassLabel_def ns)
  have 5: "getCustomClassIcon (xs @ item # ys) = getCustomClassIcon (xs @ ys)"
    by (simp only: getCustomClassIcon_def ns)
  have d: "group_item acc item = Inr acc" for acc
    by (rule group_item_reserved [OF p]) (simp add: 3)
  have 6: "groupActorSkills (xs @ item # ys) = groupActorSkills (xs @ ys)"
    by (rule groupActorSkills_skip [OF d])
  have 7: "item \<notin> set (grouped_items (grouped res)) \<and> item \<notin> set (occupational res)"
    if "groupActorSkills items = Inr res"
    by (rule groupActorSkills_absent [OF d that])
  show ?thesis
    apply (intro conjI impI)
           apply (rule 1)
          apply (rule 2)
         apply (rule 3)
        apply (rule 4)
       apply (rule 5)
      apply (rule 6)
     apply (rule 7 [THEN conjunct1]; assumption)
    apply (rule 7 [THEN conjunct2]; assumption)
    done
qed

theorem blank_naming_item_ignored_witness:
  "list_all is_space [] \<and> list_all2 ci_eq ''customclass'' ''CUSTOMCLASS'' \<and> list_all is_space ''   ''
   \<and> name (skill ''2'' ''(CUSTOMCLASS)   '') = ''('' @ [] @ ''CUSTOMCLASS'' @ [] @ '')'' @ ''   ''
   \<and> \<not> truthy (parseNamingItem (name (skill ''2'' ''(CUSTOMCLASS)   '')))
   \<and> parseName ''(CUSTOMCLASS)   '' = PrefixedSkill \<lparr> className = ''CUSTOMCLASS'', weight = 0, skillName = [] \<rparr>
   \<and> getCustomClassLabel [skill ''1'' ''(customclass)Bard'', skill ''2'' ''(CUSTOMCLASS)   '', skill ''3'' ''Climbing'']
       = Some ''Bard''
   \<and> groupActorSkills [skill ''1'' ''(customclass)Bard'', skill ''2'' ''(CUSTOMCLASS)   '', skill ''3'' ''Climbing'']
       = Inr \<lparr> grouped = [], occupational = [skill ''3'' ''Climbing''] \<rparr>"
proof -
  let ?item = "skill ''2'' ''(CUSTOMCLASS)   ''"
  let ?xs = "[skill ''1'' ''(customclass)Bard'']"
  let ?ys = "[skill ''3'' ''Climbing'']"
  have a: "list_all is_space []" by simp
  have b: "list_all2 ci_eq ''customclass'' ''CUSTOMCLASS''" by code_simp
  have c: "list_all is_space ''   ''" by code_simp
  have d: "name ?item = ''('' @ [] @ ''CUSTOMCLASS'' @ [] @ '')'' @ ''   ''" by simp
  note t = blank_naming_item_ignored [OF a b a c d, of ?xs ?ys]
  have e: "\<not> truthy (parseNamingItem (name ?item))" by (rule t [THEN conjunct1])
  have f: "parseName ''(CUSTOMCLASS)   '' = PrefixedSkill \<lparr> className = ''CUSTOMCLASS'', weight = 0, skillName = [] \<rparr>"
    using t [THEN conjunct2, THEN conjunct1] by simp
  have l0: "getCustomClassLabel (?xs @ ?ys) = Some ''Bard''" by code_simp
  have g0: "groupActorSkills (?xs @ ?ys) = Inr \<lparr> grouped = [], occupational = [skill ''3'' ''Climbing''] \<rparr>"
    by code_simp
  have l: "getCustomClassLabel [skill ''1'' ''(customclass)Bard'', ?item, skill ''3'' ''Climbing''] = Some ''Bard''"
    using t [THEN conjunct2, THEN conjunct2, THEN conjunct2, THEN conjunct1] l0 by simp
  have g: "groupActorSkills [skill ''1'' ''(customclass)Bard'', ?item, skill ''3'' ''Climbing'']
       = Inr \<lparr> grouped = [], occupational = [skill ''3'' ''Climbing''] \<rparr>"
    using t [THEN conjunct2, THEN conjunct2, THEN conjunct2, THEN conjunct2, THEN conjunct2, THEN conjunct1] g0
    by simp
  from a b c d e f l g show ?thesis by (intro conjI)
qed

end
